theory Spec2Isabelle
  imports Main
begin

section \<open>Values: QVariant\<close>

text \<open>
  The record store of \<^verbatim>\<open>src/database/DbRecords.cpp\<close> moves every value between objects
  and the database as a \<^verbatim>\<open>QVariant\<close>. The kinds the store itself meets are modelled:
  \<^item> \<open>Invalid\<close>, the invalid variant;
  \<^item> \<open>VNull\<close>, the null string, which is what a column holding \<^verbatim>\<open>NULL\<close> reads as;
  \<^item> \<open>VBool\<close>, a boolean;
  \<^item> \<open>VInt\<close>, a variant made from a C \<^verbatim>\<open>int\<close> (so a value of 32 bits), as in
    \<^verbatim>\<open>QVariant{itemNumber}\<close>;
  \<^item> \<open>VLongLong\<close>, a 64-bit integer, which is what an integer column and
    \<^verbatim>\<open>lastInsertId\<close> deliver;
  \<^item> \<open>VString\<close>, a string that is not null, and \<open>VList\<close>, a list of variants.

  Doubles and dates pass through the store untouched and are left out.
\<close>

datatype qvariant =
    Invalid
  | VNull
  | VBool bool
  | VInt int
  | VLongLong int
  | VString string
  | VList "qvariant list"

definition isValid :: "qvariant \<Rightarrow> bool" where
  "isValid v = (v \<noteq> Invalid)"

text \<open>
  The conversion of a 64-bit integer to a C \<^verbatim>\<open>int\<close> keeps the low 32 bits, read in two's
  complement: 4294967297 becomes 1.
\<close>

definition narrow :: "int \<Rightarrow> int" where
  "narrow i = (i + 2147483648) mod 4294967296 - 2147483648"

definition digitValue :: "char \<Rightarrow> nat option" where
  "digitValue c =
     (if (48::nat) \<le> of_char c \<and> of_char c \<le> (57::nat) then Some (of_char c - 48) else None)"

fun parseDigits :: "string \<Rightarrow> nat \<Rightarrow> nat option" where
  "parseDigits [] acc = Some acc"
| "parseDigits (c # cs) acc =
     (case digitValue c of None \<Rightarrow> None | Some d \<Rightarrow> parseDigits cs (10 * acc + d))"

text \<open>
  \<^verbatim>\<open>QString::toLongLong\<close> for plain decimal numerals: an optional sign and digits; anything
  else, and a value outside the range of 64 bits, converts to 0. (Surrounding white space is
  not modelled.)
\<close>

definition inLongLongRange :: "int \<Rightarrow> int" where
  "inLongLongRange i =
     (if - 9223372036854775808 \<le> i \<and> i \<le> 9223372036854775807 then i else 0)"

definition qstringToLongLong :: "string \<Rightarrow> int" where
  "qstringToLongLong s =
     (case s of
        [] \<Rightarrow> 0
      | c # cs \<Rightarrow>
          if c = CHR ''-'' then
            (case cs of [] \<Rightarrow> 0
             | _ # _ \<Rightarrow>
                 (case parseDigits cs 0 of None \<Rightarrow> 0 | Some n \<Rightarrow> inLongLongRange (- int n)))
          else if c = CHR ''+'' then
            (case cs of [] \<Rightarrow> 0
             | _ # _ \<Rightarrow>
                 (case parseDigits cs 0 of None \<Rightarrow> 0 | Some n \<Rightarrow> inLongLongRange (int n)))
          else (case parseDigits s 0 of None \<Rightarrow> 0 | Some n \<Rightarrow> inLongLongRange (int n)))"

fun natToString :: "nat \<Rightarrow> string" where
  "natToString n =
     (if n < 10 then [char_of (48 + n)]
      else natToString (n div 10) @ [char_of (48 + n mod 10)])"

definition intToString :: "int \<Rightarrow> string" where
  "intToString i = (if i < 0 then CHR ''-'' # natToString (nat (- i)) else natToString (nat i))"

text \<open>
  \<^verbatim>\<open>QVariant::toInt\<close> converts to a 64-bit number first and then to \<^verbatim>\<open>int\<close>, without a
  check of the range: a 64-bit integer, and a string through \<^verbatim>\<open>QString::toLongLong\<close>, are
  narrowed. A variant made from an \<^verbatim>\<open>int\<close> gives that \<^verbatim>\<open>int\<close> back.
\<close>

definition toInt :: "qvariant \<Rightarrow> int" where
  "toInt v =
     (case v of
        Invalid \<Rightarrow> 0
      | VNull \<Rightarrow> 0
      | VBool b \<Rightarrow> (if b then 1 else 0)
      | VInt i \<Rightarrow> i
      | VLongLong i \<Rightarrow> narrow i
      | VString s \<Rightarrow> narrow (qstringToLongLong s)
      | VList _ \<Rightarrow> 0)"

definition toString :: "qvariant \<Rightarrow> string" where
  "toString v =
     (case v of
        Invalid \<Rightarrow> []
      | VNull \<Rightarrow> []
      | VBool b \<Rightarrow> (if b then ''true'' else ''false'')
      | VInt i \<Rightarrow> intToString i
      | VLongLong i \<Rightarrow> intToString i
      | VString s \<Rightarrow> s
      | VList _ \<Rightarrow> [])"

definition toList :: "qvariant \<Rightarrow> qvariant list" where
  "toList v = (case v of VList vs \<Rightarrow> vs | _ \<Rightarrow> [])"

section \<open>Field descriptors\<close>

text \<open>
  Modelled from the spec: the declarations of \<^verbatim>\<open>database/DbRecords.h\<close> (the field types,
  \<^verbatim>\<open>EnumAndItsDbString\<close>, \<^verbatim>\<open>FieldSimpleDefn\<close>, \<^verbatim>\<open>FieldManyToManyDefn\<close>), which are not
  among the sources; the fields are the ones \<^verbatim>\<open>DbRecords.cpp\<close> reads.

  A property name is a \<^verbatim>\<open>char const *\<close>: \<^verbatim>\<open>updateProperty\<close> compares such names once by
  content (\<^verbatim>\<open>strcmp\<close>) and once by address, so a name carries both.
\<close>

datatype FieldType = FtBool | FtInt | FtUInt | FtDouble | FtString | FtDate | FtEnum

datatype cstring = CString (address: nat) (chars: string)

record EnumAndItsDbString =
  native :: int
  string :: string

record FieldSimpleDefn =
  fieldType :: FieldType
  columnName :: string
  propertyName :: cstring
  enumMapping :: "EnumAndItsDbString list option"

record FieldManyToManyDefn =
  tableName_m2m :: string
  propertyName_m2m :: cstring
  thisPrimaryKeyColumn :: string
  otherPrimaryKeyColumn :: string
  orderByColumn :: string
  assumeMaxOneEntry :: bool

section \<open>Database, statements and the event trace\<close>

text \<open>
  What the database stores in a column: \<^verbatim>\<open>NULL\<close>, a 64-bit integer or a text. A row is an
  association list from column names to stored values; a database holds the rows of each
  table and, for a table whose key the database assigns, the name of that key column.
  (Columns have no declared type: the schema is not among the sources, and
  \<^verbatim>\<open>createTables\<close> is unfinished.)
\<close>

datatype sqlvalue = Null | Integer int | Text string

type_synonym row = "(string \<times> sqlvalue) list"

record database =
  keyColumn :: "string \<Rightarrow> string option"
  tables :: "string \<Rightarrow> row list"

text \<open>
  The statements the store builds, by shape. Every placeholder is named \<^verbatim>\<open>:column\<close>, so the
  bound values of a query are an association list from column names to values.
  \<^item> \<open>Select t cs os\<close>: \<^verbatim>\<open>SELECT cs FROM t ORDER BY os\<close>;
  \<^item> \<open>InsertInto t cs\<close>: \<^verbatim>\<open>INSERT INTO t (cs) VALUES (:cs)\<close>;
  \<^item> \<open>Update t cs k\<close>: \<^verbatim>\<open>UPDATE t SET c = :c, ... WHERE k = :k\<close>;
  \<^item> \<open>DeleteFrom t k\<close>: \<^verbatim>\<open>DELETE FROM t WHERE k = :k\<close>.
\<close>

datatype sql =
    Select string "string list" "string list"
  | InsertInto string "string list"
  | Update string "string list" string
  | DeleteFrom string string

record query =
  statement :: sql
  boundValues :: "(string \<times> qvariant) list"

datatype assertion =
    FieldTypeIsEnum
  | EnumMappingNotNull
  | EnumMatchFound
  | ParameterNotInBundle
  | KeyNotInAllObjects
  | PrimaryKeyUnset
  | DriverHasLastInsertId
  | FieldDefnFound
  | ManyToManyDefnFound

text \<open>
  \<open>AssertionFailed\<close>: a \<^verbatim>\<open>Q_ASSERT\<close> of the source fails (a debug build aborts there).
  \<open>OutOfRange\<close>: the source indexes \<^verbatim>\<open>fieldSimpleDefns[0]\<close> or takes \<^verbatim>\<open>first()\<close> of a list
  that is empty.
\<close>

datatype error = AssertionFailed assertion | OutOfRange

datatype critical =
    CouldNotDecode string string string
  | ErrorExecuting query
  | ErrorReadingColumn string string
  | IgnoringRecord string int

datatype event =
    TransactionBegin
  | Exec query bool
  | Critical critical
  | SignalObjectInserted int
  | Commit bool
  | Rollback

section \<open>Enum codec\<close>

definition stringToEnum :: "FieldSimpleDefn \<Rightarrow> qvariant \<Rightarrow> error + (int \<times> event list)" where
  "stringToEnum fieldDefn valueFromDb =
     (if fieldType fieldDefn \<noteq> FtEnum then Inl (AssertionFailed FieldTypeIsEnum)
      else case enumMapping fieldDefn of
        None \<Rightarrow> Inl (AssertionFailed EnumMappingNotNull)
      | Some mapping \<Rightarrow>
          (let stringValue = toString valueFromDb in
           case find (\<lambda>ii. stringValue = string ii) mapping of
             None \<Rightarrow>
               Inr (0, [Critical (CouldNotDecode stringValue (columnName fieldDefn)
                                    (chars (propertyName fieldDefn)))])
           | Some match \<Rightarrow> Inr (native match, [])))"

definition enumToString :: "FieldSimpleDefn \<Rightarrow> qvariant \<Rightarrow> error + string" where
  "enumToString fieldDefn propertyValue =
     (if fieldType fieldDefn \<noteq> FtEnum then Inl (AssertionFailed FieldTypeIsEnum)
      else case enumMapping fieldDefn of
        None \<Rightarrow> Inl (AssertionFailed EnumMappingNotNull)
      | Some mapping \<Rightarrow>
          (let nativeValue = toInt propertyValue in
           case find (\<lambda>ii. nativeValue = native ii) mapping of
             None \<Rightarrow> Inl (AssertionFailed EnumMatchFound)
           | Some match \<Rightarrow> Inr (string match)))"

section \<open>Association lists\<close>

text \<open>
  \<open>assign\<close> stores a value under a name, replacing the value the name already has. It is
  \<^verbatim>\<open>QSqlQuery::bindValue\<close> on the bound values of a query, \<^verbatim>\<open>QObject::setProperty\<close> on the
  properties of an object, \<^verbatim>\<open>QHash::insert\<close> on a \<^verbatim>\<open>NamedParameterBundle\<close> and the
  \<^verbatim>\<open>SET\<close> of a column in a row. \<open>lookup\<close> reads a name and gives the invalid variant when
  the name is absent, as \<^verbatim>\<open>QObject::property\<close> does.
\<close>

fun assign :: "string \<Rightarrow> 'a \<Rightarrow> (string \<times> 'a) list \<Rightarrow> (string \<times> 'a) list" where
  "assign n v [] = [(n, v)]"
| "assign n v ((m, u) # rest) = (if m = n then (n, v) # rest else (m, u) # assign n v rest)"

definition lookup :: "(string \<times> qvariant) list \<Rightarrow> string \<Rightarrow> qvariant" where
  "lookup r n = (case map_of r n of None \<Rightarrow> Invalid | Some v \<Rightarrow> v)"

definition bindValue :: "string \<Rightarrow> qvariant \<Rightarrow> query \<Rightarrow> query" where
  "bindValue n v q = q\<lparr>boundValues := assign n v (boundValues q)\<rparr>"

text \<open>
  An object is the bag of its named properties; \<^verbatim>\<open>property\<close> and \<^verbatim>\<open>setProperty\<close> go by the
  content of the name. (Side effects of the domain classes' own setters are outside the store.)
\<close>

type_synonym qobject = "(string \<times> qvariant) list"

definition property :: "qobject \<Rightarrow> cstring \<Rightarrow> qvariant" where
  "property object name = lookup object (chars name)"

definition setProperty :: "cstring \<Rightarrow> qvariant \<Rightarrow> qobject \<Rightarrow> qobject" where
  "setProperty name v object = assign (chars name) v object"

section \<open>The SQL driver\<close>

text \<open>
  What the database does is outside the repository; the model fixes it as follows. Whether a
  statement or a commit fails, and which key the database assigns to a new row, is decided by
  the driver, a parameter of every operation. A failed statement changes nothing and leaves
  the transaction open (as SQLite does).

  A statement is run by \<^verbatim>\<open>QSqlQuery::exec()\<close> with the values bound to it at that moment.
  (The constructor \<^verbatim>\<open>QSqlQuery{queryString, connection}\<close> by which the source makes each
  query runs the statement once already, before any value is bound; the model starts at the
  explicit \<^verbatim>\<open>exec()\<close> and takes that earlier run to leave the database as it is.)
\<close>

record driver =
  execFails :: "database \<Rightarrow> query \<Rightarrow> bool"
  commitFails :: "database \<Rightarrow> bool"
  nextKey :: "database \<Rightarrow> string \<Rightarrow> int"
  hasLastInsertId :: bool

text \<open>
  How a bound value is stored (Qt's SQLite driver): a null or invalid variant as \<^verbatim>\<open>NULL\<close>, a
  boolean and an integer as an integer, a string as text, and a variant of any other kind as
  the text of its \<^verbatim>\<open>toString()\<close>, which for a list is the empty text. And how a stored value
  is read back by \<^verbatim>\<open>QSqlQuery::value\<close>: \<^verbatim>\<open>NULL\<close> as the null string, an integer as a 64-bit
  integer, a text as a string; the name of a column that the row does not have gives the
  invalid variant.
\<close>

definition toSql :: "qvariant \<Rightarrow> sqlvalue" where
  "toSql v =
     (case v of
        Invalid \<Rightarrow> Null
      | VNull \<Rightarrow> Null
      | VBool b \<Rightarrow> Integer (if b then 1 else 0)
      | VInt i \<Rightarrow> Integer i
      | VLongLong i \<Rightarrow> Integer i
      | VString s \<Rightarrow> Text s
      | VList vs \<Rightarrow> Text (toString (VList vs)))"

definition fromSql :: "sqlvalue \<Rightarrow> qvariant" where
  "fromSql x = (case x of Null \<Rightarrow> VNull | Integer i \<Rightarrow> VLongLong i | Text s \<Rightarrow> VString s)"

definition columnValue :: "row \<Rightarrow> string \<Rightarrow> qvariant" where
  "columnValue r c = (case map_of r c of None \<Rightarrow> Invalid | Some x \<Rightarrow> fromSql x)"

text \<open>\<^verbatim>\<open>WHERE k = :k\<close>: the row holds in column \<open>k\<close> what the bound value is stored as; \<^verbatim>\<open>NULL\<close> equals nothing.\<close>

definition matches :: "row \<Rightarrow> string \<Rightarrow> qvariant \<Rightarrow> bool" where
  "matches r k v = (toSql v \<noteq> Null \<and> map_of r k = Some (toSql v))"

text \<open>
  The order of stored values: \<^verbatim>\<open>NULL\<close> first, then the integers by value, then the texts,
  character by character, a prefix before its extensions.
\<close>

fun textLe :: "string \<Rightarrow> string \<Rightarrow> bool" where
  "textLe [] t = True"
| "textLe (c # s) [] = False"
| "textLe (c # s) (d # t) = ((of_char c :: nat) < of_char d \<or> (c = d \<and> textLe s t))"

fun sqlLe :: "sqlvalue \<Rightarrow> sqlvalue \<Rightarrow> bool" where
  "sqlLe Null y = True"
| "sqlLe (Integer i) Null = False"
| "sqlLe (Integer i) (Integer j) = (i \<le> j)"
| "sqlLe (Integer i) (Text t) = True"
| "sqlLe (Text s) Null = False"
| "sqlLe (Text s) (Integer j) = False"
| "sqlLe (Text s) (Text t) = textLe s t"

definition storedValue :: "row \<Rightarrow> string \<Rightarrow> sqlvalue" where
  "storedValue r c = (case map_of r c of None \<Rightarrow> Null | Some x \<Rightarrow> x)"

text \<open>
  \<^verbatim>\<open>ORDER BY c1, c2\<close>: stable insertion sorts from the last column to the first. Rows that
  are equal in every column of the order keep the order they have in the table (SQL leaves
  their order open).
\<close>

fun insertRow :: "string \<Rightarrow> row \<Rightarrow> row list \<Rightarrow> row list" where
  "insertRow c r [] = [r]"
| "insertRow c r (r' # rs) =
     (if sqlLe (storedValue r c) (storedValue r' c) then r # r' # rs else r' # insertRow c r rs)"

definition sortRows :: "string \<Rightarrow> row list \<Rightarrow> row list" where
  "sortRows c rows = foldr (insertRow c) rows []"

definition orderBy :: "string list \<Rightarrow> row list \<Rightarrow> row list" where
  "orderBy cols rows = foldr sortRows cols rows"

definition resultRows :: "query \<Rightarrow> database \<Rightarrow> row list" where
  "resultRows q db =
     (case statement q of
        Select t cols order \<Rightarrow>
          map (\<lambda>r. filter (\<lambda>cv. fst cv \<in> set cols) r) (orderBy order (tables db t))
      | _ \<Rightarrow> [])"

definition insertedRow :: "driver \<Rightarrow> query \<Rightarrow> database \<Rightarrow> string \<Rightarrow> string list \<Rightarrow> row" where
  "insertedRow drv q db t cols =
     (let newRow = map (\<lambda>c. (c, toSql (lookup (boundValues q) c))) cols in
      case keyColumn db t of
        None \<Rightarrow> newRow
      | Some k \<Rightarrow> if k \<in> set cols then newRow else (k, Integer (nextKey drv db t)) # newRow)"

definition runStatement :: "driver \<Rightarrow> query \<Rightarrow> database \<Rightarrow> database" where
  "runStatement drv q db =
     (case statement q of
        Select t cols order \<Rightarrow> db
      | InsertInto t cols \<Rightarrow>
          db\<lparr>tables := (tables db)(t := tables db t @ [insertedRow drv q db t cols])\<rparr>
      | Update t cols k \<Rightarrow>
          db\<lparr>tables := (tables db)(t :=
               map (\<lambda>r. if matches r k (lookup (boundValues q) k)
                         then foldl (\<lambda>r' c. assign c (toSql (lookup (boundValues q) c)) r') r cols
                         else r)
                   (tables db t))\<rparr>
      | DeleteFrom t k \<Rightarrow>
          db\<lparr>tables := (tables db)(t :=
               filter (\<lambda>r. \<not> matches r k (lookup (boundValues q) k)) (tables db t))\<rparr>)"

text \<open>\<^verbatim>\<open>QSqlQuery::lastInsertId\<close>: the key of the row an \<^verbatim>\<open>INSERT\<close> adds.\<close>

definition lastInsertId :: "driver \<Rightarrow> query \<Rightarrow> database \<Rightarrow> qvariant" where
  "lastInsertId drv q db =
     (case statement q of
        InsertInto t cols \<Rightarrow>
          (case keyColumn db t of
             None \<Rightarrow> Invalid
           | Some k \<Rightarrow> columnValue (insertedRow drv q db t cols) k)
      | _ \<Rightarrow> Invalid)"

section \<open>State and transactions\<close>

text \<open>
  The mutable state: the cache \<^verbatim>\<open>allObjects\<close> of the store (a \<^verbatim>\<open>QHash\<close> from key to object,
  the keys being the C \<^verbatim>\<open>int\<close>s that \<^verbatim>\<open>toInt\<close> gives),
  the database as committed (\<open>durable\<close>) and as the open transaction sees it (\<open>pending\<close>), and
  the trace of what the process did, in order: statements run, messages logged through
  \<^verbatim>\<open>qCritical\<close>, signals emitted, and the transaction's begin, commit and rollback.
\<close>

record state =
  allObjects :: "int \<Rightarrow> qobject option"
  durable :: database
  pending :: database
  trace :: "event list"

definition emitEvent :: "event \<Rightarrow> state \<Rightarrow> state" where
  "emitEvent e s = s\<lparr>trace := trace s @ [e]\<rparr>"

definition qCritical :: "critical \<Rightarrow> state \<Rightarrow> state" where
  "qCritical c s = emitEvent (Critical c) s"

definition exec :: "driver \<Rightarrow> query \<Rightarrow> state \<Rightarrow> bool \<times> state" where
  "exec drv q s =
     (if execFails drv (pending s) q then (False, emitEvent (Exec q False) s)
      else (True, emitEvent (Exec q True) (s\<lparr>pending := runStatement drv q (pending s)\<rparr>)))"

text \<open>
  \<^verbatim>\<open>class DbTransaction\<close>: the constructor begins a transaction, \<^verbatim>\<open>commit\<close> records whether
  the commit succeeded, and the destructor rolls back unless it did. The source only logs
  whether the begin and the rollback succeeded; the model takes both to succeed (a connection
  with transactions and none open, as the store uses it).
\<close>

definition DbTransaction :: "state \<Rightarrow> state" where
  "DbTransaction s = emitEvent TransactionBegin (s\<lparr>pending := durable s\<rparr>)"

definition commit :: "driver \<Rightarrow> state \<Rightarrow> bool \<times> state" where
  "commit drv s =
     (if commitFails drv (pending s) then (False, emitEvent (Commit False) s)
      else (True, emitEvent (Commit True) (s\<lparr>durable := pending s\<rparr>)))"

definition DbTransaction_destructor :: "bool \<Rightarrow> state \<Rightarrow> state" where
  "DbTransaction_destructor committed s =
     (if \<not> committed then emitEvent Rollback (s\<lparr>pending := durable s\<rparr>) else s)"

section \<open>Junction-table helpers\<close>

text \<open>
  The loop of \<^verbatim>\<open>insertIntoFieldManyToManyDefn\<close>: one \<^verbatim>\<open>INSERT\<close> per item, the order column
  (when there is one) counting from 1; the first failure logs and returns false. (The counter
  is a C \<^verbatim>\<open>int\<close>; a list long enough to overflow it is out of reach.)
\<close>

fun insertItems ::
  "driver \<Rightarrow> FieldManyToManyDefn \<Rightarrow> qvariant \<Rightarrow> qvariant list \<Rightarrow> int \<Rightarrow> query \<Rightarrow> state
     \<Rightarrow> bool \<times> state" where
  "insertItems drv defn primaryKey [] itemNumber sqlQuery s = (True, s)"
| "insertItems drv defn primaryKey (curValue # rest) itemNumber sqlQuery s =
     (let q1 = bindValue (thisPrimaryKeyColumn defn) primaryKey sqlQuery;
          q2 = bindValue (otherPrimaryKeyColumn defn) curValue q1;
          q3 = (if orderByColumn defn \<noteq> [] then bindValue (orderByColumn defn) (VInt itemNumber) q2
                else q2)
      in case exec drv q3 s of
           (ok, s') \<Rightarrow>
             if \<not> ok then (False, qCritical (ErrorExecuting q3) s')
             else insertItems drv defn primaryKey rest (itemNumber + 1) q3 s')"

text \<open>The statement \<^verbatim>\<open>insertIntoFieldManyToManyDefn\<close> builds.\<close>

definition junctionInsert :: "FieldManyToManyDefn \<Rightarrow> sql" where
  "junctionInsert fieldManyToManyDefn =
     InsertInto (tableName_m2m fieldManyToManyDefn)
       ([thisPrimaryKeyColumn fieldManyToManyDefn, otherPrimaryKeyColumn fieldManyToManyDefn] @
        (if orderByColumn fieldManyToManyDefn \<noteq> [] then [orderByColumn fieldManyToManyDefn]
         else []))"

text \<open>
  The list of values \<^verbatim>\<open>insertIntoFieldManyToManyDefn\<close> binds, one after the other: the
  property's value as a list, or, for a definition with \<^verbatim>\<open>assumeMaxOneEntry\<close>, the one-item
  list holding the property's value.
\<close>

definition valuesToBind :: "FieldManyToManyDefn \<Rightarrow> qobject \<Rightarrow> qvariant list" where
  "valuesToBind fieldManyToManyDefn object =
     (let bindValues = property object (propertyName_m2m fieldManyToManyDefn);
          bindValues' = (if assumeMaxOneEntry fieldManyToManyDefn then VList [bindValues]
                         else bindValues)
      in toList bindValues')"

definition insertIntoFieldManyToManyDefn ::
  "driver \<Rightarrow> FieldManyToManyDefn \<Rightarrow> qobject \<Rightarrow> qvariant \<Rightarrow> state \<Rightarrow> bool \<times> state" where
  "insertIntoFieldManyToManyDefn drv fieldManyToManyDefn object primaryKey s =
     (let sqlQuery = \<lparr>statement = junctionInsert fieldManyToManyDefn, boundValues = []\<rparr>
      in insertItems drv fieldManyToManyDefn primaryKey
           (valuesToBind fieldManyToManyDefn object) 1 sqlQuery s)"

definition deleteFromFieldManyToManyDefn ::
  "driver \<Rightarrow> FieldManyToManyDefn \<Rightarrow> qvariant \<Rightarrow> state \<Rightarrow> bool \<times> state" where
  "deleteFromFieldManyToManyDefn drv fieldManyToManyDefn primaryKey s =
     (let sqlQuery =
            bindValue (thisPrimaryKeyColumn fieldManyToManyDefn) primaryKey
              \<lparr>statement = DeleteFrom (tableName_m2m fieldManyToManyDefn)
                                       (thisPrimaryKeyColumn fieldManyToManyDefn),
               boundValues = []\<rparr>
      in case exec drv sqlQuery s of
           (ok, s') \<Rightarrow>
             if \<not> ok then (False, qCritical (ErrorExecuting sqlQuery) s') else (True, s'))"

section \<open>The record store\<close>

text \<open>
  \<^verbatim>\<open>class DbRecords::impl\<close>: the table name and the field definitions, fixed at construction.
  \<open>createNewObject\<close> is the store's virtual constructor of a domain object from a
  \<^verbatim>\<open>NamedParameterBundle\<close> (implemented by the subclasses, outside the sources). The member
  \<^verbatim>\<open>allObjects\<close> is the one part that changes and lives in the state.
\<close>

record impl =
  tableName :: string
  fieldSimpleDefns :: "FieldSimpleDefn list"
  fieldManyToManyDefns :: "FieldManyToManyDefn list"
  createNewObject :: "(string \<times> qvariant) list \<Rightarrow> qobject"

definition contains :: "state \<Rightarrow> int \<Rightarrow> bool" where
  "contains s key = (allObjects s key \<noteq> None)"

definition getById :: "state \<Rightarrow> int \<Rightarrow> qobject option" where
  "getById s key = allObjects s key"

subsection \<open>loadAll\<close>

text \<open>
  The loop over the field definitions for one row of the main table (a \<^verbatim>\<open>break\<close> where a
  column cannot be read). It yields the bundle and the primary key, which starts at -1 and is
  the integer value of the first field read. \<open>decodeValue\<close> is the value as it goes into the
  bundle: an enum column through \<^verbatim>\<open>stringToEnum\<close>, with what that logged.
\<close>

definition decodeValue :: "FieldSimpleDefn \<Rightarrow> qvariant \<Rightarrow> error + (qvariant \<times> event list)" where
  "decodeValue fieldDefn fieldValue =
     (if fieldType fieldDefn = FtEnum then
        (case stringToEnum fieldDefn fieldValue of
           Inl e \<Rightarrow> Inl e
         | Inr (n, evs) \<Rightarrow> Inr (VInt n, evs))
      else Inr (fieldValue, []))"

fun readFields ::
  "string \<Rightarrow> FieldSimpleDefn list \<Rightarrow> row \<Rightarrow> (string \<times> qvariant) list \<Rightarrow> bool \<Rightarrow> int \<Rightarrow> state
     \<Rightarrow> error + ((string \<times> qvariant) list \<times> int \<times> state)" where
  "readFields table [] r namedParameterBundle readPrimaryKey primaryKey s =
     Inr (namedParameterBundle, primaryKey, s)"
| "readFields table (fieldDefn # rest) r namedParameterBundle readPrimaryKey primaryKey s =
     (let fieldValue = columnValue r (columnName fieldDefn) in
      if \<not> isValid fieldValue then
        Inr (namedParameterBundle, primaryKey,
             qCritical (ErrorReadingColumn (columnName fieldDefn) table) s)
      else
        case decodeValue fieldDefn fieldValue of
          Inl e \<Rightarrow> Inl e
        | Inr (fieldValue', evs) \<Rightarrow>
            if map_of namedParameterBundle (chars (propertyName fieldDefn)) \<noteq> None
            then Inl (AssertionFailed ParameterNotInBundle)
            else readFields table rest r
                   (assign (chars (propertyName fieldDefn)) fieldValue' namedParameterBundle)
                   True
                   (if \<not> readPrimaryKey then toInt fieldValue' else primaryKey)
                   (s\<lparr>trace := trace s @ evs\<rparr>))"

text \<open>The \<^verbatim>\<open>while (sqlQuery.next())\<close> loop over the rows of the main table.\<close>

fun loadRows :: "impl \<Rightarrow> row list \<Rightarrow> state \<Rightarrow> error + state" where
  "loadRows st [] s = Inr s"
| "loadRows st (r # rs) s =
     (case readFields (tableName st) (fieldSimpleDefns st) r [] False (- 1) s of
        Inl e \<Rightarrow> Inl e
      | Inr (namedParameterBundle, primaryKey, s') \<Rightarrow>
          (let object = createNewObject st namedParameterBundle in
           if contains s' primaryKey then Inl (AssertionFailed KeyNotInAllObjects)
           else loadRows st rs (s'\<lparr>allObjects := (allObjects s')(primaryKey \<mapsto> object)\<rparr>)))"

text \<open>
  \<^verbatim>\<open>QMultiHash<int, QVariant>\<close>: \<^verbatim>\<open>insert\<close> adds an item and keeps the ones the key already
  has; \<^verbatim>\<open>values(key)\<close> lists the values of a key from the most recently inserted to the
  least recently inserted, so an inserted item goes to the front. The order of
  \<^verbatim>\<open>uniqueKeys()\<close> is not determined by Qt; the model takes one.
\<close>

definition multiHashInsert :: "int \<Rightarrow> qvariant \<Rightarrow> (int \<times> qvariant) list \<Rightarrow> (int \<times> qvariant) list" where
  "multiHashInsert k v h = (k, v) # h"

definition multiHashValues :: "(int \<times> qvariant) list \<Rightarrow> int \<Rightarrow> qvariant list" where
  "multiHashValues h k = map snd (filter (\<lambda>kv. fst kv = k) h)"

definition uniqueKeys :: "(int \<times> qvariant) list \<Rightarrow> int list" where
  "uniqueKeys h = remdups (map fst h)"

text \<open>The loop over the keys of the junction rows read, passing the other keys to the objects.\<close>

fun applyRelations ::
  "FieldManyToManyDefn \<Rightarrow> (int \<times> qvariant) list \<Rightarrow> int list \<Rightarrow> state \<Rightarrow> error + state" where
  "applyRelations defn thisToOtherKeys [] s = Inr s"
| "applyRelations defn thisToOtherKeys (currentKey # keys) s =
     (if \<not> contains s currentKey then
        applyRelations defn thisToOtherKeys keys
          (qCritical (IgnoringRecord (tableName_m2m defn) currentKey) s)
      else
        case getById s currentKey of
          None \<Rightarrow> Inl OutOfRange
        | Some currentObject \<Rightarrow>
            (let otherKeys = multiHashValues thisToOtherKeys currentKey in
             if assumeMaxOneEntry defn then
               (case otherKeys of
                  [] \<Rightarrow> Inl OutOfRange
                | first # _ \<Rightarrow>
                    applyRelations defn thisToOtherKeys keys
                      (s\<lparr>allObjects := (allObjects s)(currentKey \<mapsto>
                            setProperty (propertyName_m2m defn) first currentObject)\<rparr>))
             else
               applyRelations defn thisToOtherKeys keys
                 (s\<lparr>allObjects := (allObjects s)(currentKey \<mapsto>
                       setProperty (propertyName_m2m defn) (VList otherKeys) currentObject)\<rparr>)))"

definition junctionQuery :: "FieldManyToManyDefn \<Rightarrow> query" where
  "junctionQuery defn =
     \<lparr>statement = Select (tableName_m2m defn)
          [thisPrimaryKeyColumn defn, otherPrimaryKeyColumn defn]
          [thisPrimaryKeyColumn defn,
           if orderByColumn defn \<noteq> [] then orderByColumn defn else otherPrimaryKeyColumn defn],
      boundValues = []\<rparr>"

definition readJunctionRows :: "FieldManyToManyDefn \<Rightarrow> row list \<Rightarrow> (int \<times> qvariant) list" where
  "readJunctionRows defn rows =
     foldl (\<lambda>h r. multiHashInsert (toInt (columnValue r (thisPrimaryKeyColumn defn)))
                                   (columnValue r (otherPrimaryKeyColumn defn)) h) [] rows"

text \<open>
  The loop over the many-to-many definitions. The boolean is false when a \<^verbatim>\<open>SELECT\<close> failed
  and \<^verbatim>\<open>loadAll\<close> returned there.
\<close>

fun loadJunctions :: "driver \<Rightarrow> FieldManyToManyDefn list \<Rightarrow> state \<Rightarrow> error + (bool \<times> state)" where
  "loadJunctions drv [] s = Inr (True, s)"
| "loadJunctions drv (defn # rest) s =
     (let sqlQuery = junctionQuery defn;
          rows = resultRows sqlQuery (pending s)
      in case exec drv sqlQuery s of
           (ok, s1) \<Rightarrow>
             if \<not> ok then Inr (False, qCritical (ErrorExecuting sqlQuery) s1)
             else
               (let thisToOtherKeys = readJunctionRows defn rows in
                case applyRelations defn thisToOtherKeys (uniqueKeys thisToOtherKeys) s1 of
                  Inl e \<Rightarrow> Inl e
                | Inr s2 \<Rightarrow> loadJunctions drv rest s2))"

definition mainQuery :: "impl \<Rightarrow> query" where
  "mainQuery st =
     \<lparr>statement = Select (tableName st) (map columnName (fieldSimpleDefns st)) [],
      boundValues = []\<rparr>"

definition loadAll :: "driver \<Rightarrow> impl \<Rightarrow> state \<Rightarrow> error + state" where
  "loadAll drv st s0 =
     (let s = DbTransaction s0;
          sqlQuery = mainQuery st;
          rows = resultRows sqlQuery (pending s)
      in case exec drv sqlQuery s of
           (ok, s1) \<Rightarrow>
             if \<not> ok then
               Inr (DbTransaction_destructor False (qCritical (ErrorExecuting sqlQuery) s1))
             else
               case loadRows st rows s1 of
                 Inl e \<Rightarrow> Inl e
               | Inr s2 \<Rightarrow>
                   (case loadJunctions drv (fieldManyToManyDefns st) s2 of
                      Inl e \<Rightarrow> Inl e
                    | Inr (finished, s3) \<Rightarrow>
                        if \<not> finished then Inr (DbTransaction_destructor False s3)
                        else case commit drv s3 of
                               (committed, s4) \<Rightarrow> Inr (DbTransaction_destructor committed s4)))"

subsection \<open>insert, update, updateProperty\<close>

text \<open>
  The loop that binds the value of each field's property to the placeholder of its column,
  an enum through \<^verbatim>\<open>enumToString\<close>. \<^verbatim>\<open>insert\<close> runs it over the fields after the first,
  \<^verbatim>\<open>update\<close> over all of them.
\<close>

definition encodeValue :: "FieldSimpleDefn \<Rightarrow> qvariant \<Rightarrow> error + qvariant" where
  "encodeValue fieldDefn v =
     (if fieldType fieldDefn = FtEnum then
        (case enumToString fieldDefn v of Inl e \<Rightarrow> Inl e | Inr str \<Rightarrow> Inr (VString str))
      else Inr v)"

fun bindFields :: "FieldSimpleDefn list \<Rightarrow> qobject \<Rightarrow> query \<Rightarrow> error + query" where
  "bindFields [] object sqlQuery = Inr sqlQuery"
| "bindFields (fieldDefn # rest) object sqlQuery =
     (case encodeValue fieldDefn (property object (propertyName fieldDefn)) of
        Inl e \<Rightarrow> Inl e
      | Inr v \<Rightarrow> bindFields rest object (bindValue (columnName fieldDefn) v sqlQuery))"

text \<open>
  The loop of \<^verbatim>\<open>insert\<close> over the many-to-many definitions: the result of
  \<^verbatim>\<open>insertIntoFieldManyToManyDefn\<close> is not looked at.
\<close>

fun insertJunctions ::
  "driver \<Rightarrow> FieldManyToManyDefn list \<Rightarrow> qobject \<Rightarrow> qvariant \<Rightarrow> state \<Rightarrow> state" where
  "insertJunctions drv [] object primaryKey s = s"
| "insertJunctions drv (defn # rest) object primaryKey s =
     insertJunctions drv rest object primaryKey
       (snd (insertIntoFieldManyToManyDefn drv defn object primaryKey s))"

text \<open>
  \<^verbatim>\<open>insert\<close> returns the object, which it changes (the new key is written into it), and the
  state. With no field definition at all the name of the key property stays the null pointer,
  for which \<^verbatim>\<open>property\<close> gives the invalid variant and \<^verbatim>\<open>setProperty\<close> does nothing.
\<close>

definition insert_object :: "driver \<Rightarrow> impl \<Rightarrow> qobject \<Rightarrow> state \<Rightarrow> error + (qobject \<times> state)" where
  "insert_object drv st object s0 =
     (let s = DbTransaction s0;
          sqlQuery0 = \<lparr>statement = InsertInto (tableName st)
                                      (map columnName (tl (fieldSimpleDefns st))),
                       boundValues = []\<rparr>;
          primaryKeyParameter =
            (case fieldSimpleDefns st of [] \<Rightarrow> None | fieldDefn # _ \<Rightarrow> Some (propertyName fieldDefn))
      in case bindFields (tl (fieldSimpleDefns st)) object sqlQuery0 of
           Inl e \<Rightarrow> Inl e
         | Inr sqlQuery \<Rightarrow>
             (let currentPrimaryKey =
                    toInt (case primaryKeyParameter of None \<Rightarrow> Invalid
                           | Some name \<Rightarrow> property object name)
              in if \<not> currentPrimaryKey \<le> 0 then Inl (AssertionFailed PrimaryKeyUnset)
                 else
                   (let primaryKey = lastInsertId drv sqlQuery (pending s) in
                    case exec drv sqlQuery s of
                      (ok, s1) \<Rightarrow>
                        if \<not> ok then
                          Inr (object,
                               DbTransaction_destructor False
                                 (qCritical (ErrorExecuting sqlQuery) s1))
                        else if \<not> hasLastInsertId drv
                        then Inl (AssertionFailed DriverHasLastInsertId)
                        else
                          (let object' =
                                 (case primaryKeyParameter of None \<Rightarrow> object
                                  | Some name \<Rightarrow> setProperty name primaryKey object)
                           in if contains s1 (toInt primaryKey)
                              then Inl (AssertionFailed KeyNotInAllObjects)
                              else
                                (let s2 = s1\<lparr>allObjects :=
                                             (allObjects s1)(toInt primaryKey \<mapsto> object')\<rparr>;
                                     s3 = insertJunctions drv (fieldManyToManyDefns st)
                                            object' primaryKey s2;
                                     s4 = emitEvent (SignalObjectInserted (toInt primaryKey)) s3
                                 in case commit drv s4 of
                                      (committed, s5) \<Rightarrow>
                                        Inr (object',
                                             DbTransaction_destructor committed s5))))))"

text \<open>
  The loop of \<^verbatim>\<open>update\<close> over the many-to-many definitions: delete, then insert again; the
  first failure returns.
\<close>

fun updateJunctions ::
  "driver \<Rightarrow> FieldManyToManyDefn list \<Rightarrow> qobject \<Rightarrow> qvariant \<Rightarrow> state \<Rightarrow> bool \<times> state" where
  "updateJunctions drv [] object primaryKey s = (True, s)"
| "updateJunctions drv (defn # rest) object primaryKey s =
     (case deleteFromFieldManyToManyDefn drv defn primaryKey s of
        (deleted, s1) \<Rightarrow>
          if \<not> deleted then (False, s1)
          else case insertIntoFieldManyToManyDefn drv defn object primaryKey s1 of
                 (inserted, s2) \<Rightarrow>
                   if \<not> inserted then (False, s2)
                   else updateJunctions drv rest object primaryKey s2)"

definition commitAndReturn :: "driver \<Rightarrow> state \<Rightarrow> state" where
  "commitAndReturn drv s =
     (case commit drv s of (committed, s') \<Rightarrow> DbTransaction_destructor committed s')"

definition update :: "driver \<Rightarrow> impl \<Rightarrow> qobject \<Rightarrow> state \<Rightarrow> error + state" where
  "update drv st object s0 =
     (let s = DbTransaction s0 in
      case fieldSimpleDefns st of
        [] \<Rightarrow> Inl OutOfRange
      | keyDefn # rest \<Rightarrow>
          (let primaryKeyColumn = columnName keyDefn;
               primaryKeyProperty = propertyName keyDefn;
               primaryKey = property object primaryKeyProperty;
               sqlQuery0 = \<lparr>statement = Update (tableName st) (map columnName rest)
                                           primaryKeyColumn,
                            boundValues = []\<rparr>
           in case bindFields (fieldSimpleDefns st) object sqlQuery0 of
                Inl e \<Rightarrow> Inl e
              | Inr sqlQuery \<Rightarrow>
                  (case exec drv sqlQuery s of
                     (ok, s1) \<Rightarrow>
                       if \<not> ok then
                         Inr (DbTransaction_destructor False
                                (qCritical (ErrorExecuting sqlQuery) s1))
                       else
                         case updateJunctions drv (fieldManyToManyDefns st) object primaryKey s1 of
                           (finished, s2) \<Rightarrow>
                             if \<not> finished then Inr (DbTransaction_destructor False s2)
                             else Inr (commitAndReturn drv s2))))"

definition updateProperty :: "driver \<Rightarrow> impl \<Rightarrow> qobject \<Rightarrow> cstring \<Rightarrow> state \<Rightarrow> error + state" where
  "updateProperty drv st object propertyToUpdateInDb s0 =
     (let s = DbTransaction s0 in
      case fieldSimpleDefns st of
        [] \<Rightarrow> Inl OutOfRange
      | keyDefn # _ \<Rightarrow>
          (let primaryKeyColumn = columnName keyDefn;
               primaryKeyProperty = propertyName keyDefn;
               primaryKey = property object primaryKeyProperty
           in case find (\<lambda>fd. chars (propertyName fd) = chars propertyToUpdateInDb)
                        (fieldSimpleDefns st) of
                Some matchingFieldDefn \<Rightarrow>
                  (let columnToUpdateInDb = columnName matchingFieldDefn;
                       sqlQuery0 = \<lparr>statement = Update (tableName st) [columnToUpdateInDb]
                                                   primaryKeyColumn,
                                    boundValues = []\<rparr>;
                       propertyBindValue = property object propertyToUpdateInDb
                   in case find (\<lambda>fd. address propertyToUpdateInDb = address (propertyName fd))
                                (fieldSimpleDefns st) of
                        None \<Rightarrow> Inl (AssertionFailed FieldDefnFound)
                      | Some fieldDefn \<Rightarrow>
                          (case encodeValue fieldDefn propertyBindValue of
                             Inl e \<Rightarrow> Inl e
                           | Inr propertyBindValue' \<Rightarrow>
                               (let sqlQuery =
                                      bindValue primaryKeyColumn primaryKey
                                        (bindValue columnToUpdateInDb propertyBindValue' sqlQuery0)
                                in case exec drv sqlQuery s of
                                     (ok, s1) \<Rightarrow>
                                       if \<not> ok then
                                         Inr (DbTransaction_destructor False
                                                (qCritical (ErrorExecuting sqlQuery) s1))
                                       else Inr (commitAndReturn drv s1))))
              | None \<Rightarrow>
                  (case find (\<lambda>jt. chars (propertyName_m2m jt) = chars propertyToUpdateInDb)
                             (fieldManyToManyDefns st) of
                     None \<Rightarrow> Inl (AssertionFailed ManyToManyDefnFound)
                   | Some defn \<Rightarrow>
                       (case deleteFromFieldManyToManyDefn drv defn primaryKey s of
                          (deleted, s1) \<Rightarrow>
                            if \<not> deleted then Inr (DbTransaction_destructor False s1)
                            else
                              case insertIntoFieldManyToManyDefn drv defn object primaryKey s1 of
                                (inserted, s2) \<Rightarrow>
                                  if \<not> inserted then Inr (DbTransaction_destructor False s2)
                                  else Inr (commitAndReturn drv s2)))))"

subsection \<open>softDelete, hardDelete\<close>

definition softDelete :: "int \<Rightarrow> state \<Rightarrow> state" where
  "softDelete key s = s\<lparr>allObjects := (allObjects s)(key := None)\<rparr>"

fun deleteJunctions :: "driver \<Rightarrow> FieldManyToManyDefn list \<Rightarrow> qvariant \<Rightarrow> state \<Rightarrow> bool \<times> state" where
  "deleteJunctions drv [] primaryKey s = (True, s)"
| "deleteJunctions drv (defn # rest) primaryKey s =
     (case deleteFromFieldManyToManyDefn drv defn primaryKey s of
        (deleted, s1) \<Rightarrow>
          if \<not> deleted then (False, s1) else deleteJunctions drv rest primaryKey s1)"

definition hardDelete :: "driver \<Rightarrow> impl \<Rightarrow> int \<Rightarrow> state \<Rightarrow> error + state" where
  "hardDelete drv st key s0 =
     (let s = DbTransaction s0 in
      case fieldSimpleDefns st of
        [] \<Rightarrow> Inl OutOfRange
      | keyDefn # _ \<Rightarrow>
          (let primaryKeyColumn = columnName keyDefn;
               primaryKey = VInt key;
               sqlQuery = bindValue primaryKeyColumn primaryKey
                            \<lparr>statement = DeleteFrom (tableName st) primaryKeyColumn,
                             boundValues = []\<rparr>
           in case exec drv sqlQuery s of
                (ok, s1) \<Rightarrow>
                  if \<not> ok then
                    Inr (DbTransaction_destructor False (qCritical (ErrorExecuting sqlQuery) s1))
                  else
                    case deleteJunctions drv (fieldManyToManyDefns st) primaryKey s1 of
                      (finished, s2) \<Rightarrow>
                        if \<not> finished then Inr (DbTransaction_destructor False s2)
                        else Inr (commitAndReturn drv
                                    (s2\<lparr>allObjects := (allObjects s2)(key := None)\<rparr>))))"

section \<open>An example store\<close>

text \<open>
  A store of recipes used to run the model on concrete inputs: a key, a name and an enum
  column; the hops of a recipe in an ordered junction table; its style in a junction table
  with at most one entry per recipe. Objects are built from the bundle as it is.
\<close>

definition recipeKeyDefn :: FieldSimpleDefn where
  "recipeKeyDefn =
     \<lparr>fieldType = FtInt, columnName = ''id'', propertyName = CString 1 ''key'',
      enumMapping = None\<rparr>"

definition recipeNameDefn :: FieldSimpleDefn where
  "recipeNameDefn =
     \<lparr>fieldType = FtString, columnName = ''name'', propertyName = CString 2 ''name'',
      enumMapping = None\<rparr>"

definition recipeTypeMapping :: "EnumAndItsDbString list" where
  "recipeTypeMapping =
     [\<lparr>native = 0, string = ''Extract''\<rparr>, \<lparr>native = 1, string = ''All Grain''\<rparr>]"

definition recipeTypeDefn :: FieldSimpleDefn where
  "recipeTypeDefn =
     \<lparr>fieldType = FtEnum, columnName = ''rtype'', propertyName = CString 3 ''type'',
      enumMapping = Some recipeTypeMapping\<rparr>"

definition recipeHopsDefn :: FieldManyToManyDefn where
  "recipeHopsDefn =
     \<lparr>tableName_m2m = ''hop_in_recipe'', propertyName_m2m = CString 4 ''hopIds'',
      thisPrimaryKeyColumn = ''recipe_id'', otherPrimaryKeyColumn = ''hop_id'',
      orderByColumn = ''ord'', assumeMaxOneEntry = False\<rparr>"

definition recipeStyleDefn :: FieldManyToManyDefn where
  "recipeStyleDefn =
     \<lparr>tableName_m2m = ''style_in_recipe'', propertyName_m2m = CString 5 ''styleId'',
      thisPrimaryKeyColumn = ''recipe_id'', otherPrimaryKeyColumn = ''style_id'',
      orderByColumn = [], assumeMaxOneEntry = True\<rparr>"

definition recipeStore :: impl where
  "recipeStore =
     \<lparr>tableName = ''recipe'',
      fieldSimpleDefns = [recipeKeyDefn, recipeNameDefn, recipeTypeDefn],
      fieldManyToManyDefns = [recipeHopsDefn, recipeStyleDefn],
      createNewObject = (\<lambda>bundle. bundle)\<rparr>"

definition emptyDatabase :: database where
  "emptyDatabase =
     \<lparr>keyColumn = (\<lambda>t. if t = ''recipe'' then Some ''id'' else None), tables = (\<lambda>t. [])\<rparr>"

definition reliableDriver :: driver where
  "reliableDriver =
     \<lparr>execFails = (\<lambda>db q. False), commitFails = (\<lambda>db. False),
      nextKey = (\<lambda>db t. int (length (tables db t)) + 1), hasLastInsertId = True\<rparr>"

definition initialState :: state where
  "initialState =
     \<lparr>allObjects = Map.empty, durable = emptyDatabase, pending = emptyDatabase, trace = []\<rparr>"

definition newRecipe :: qobject where
  "newRecipe =
     [(''key'', VInt (- 1)), (''name'', VString ''IPA''), (''type'', VInt 1),
      (''hopIds'', VList [VInt 7, VInt 3, VInt 5]), (''styleId'', VInt 42)]"

definition savedRecipe :: qobject where
  "savedRecipe = assign ''key'' (VInt 1) newRecipe"

definition recipeInCache :: state where
  "recipeInCache = initialState\<lparr>allObjects := [1 \<mapsto> savedRecipe]\<rparr>"

text \<open>
  A database to load: two recipes, the second with an enum string that is in no mapping; hops
  for recipe 1 and for a recipe 99 that does not exist; two styles for recipe 1. A database
  whose two recipes have the same key; one whose recipe has a key of more than 32 bits; and
  one whose two recipes have different 64-bit keys with the same low 32 bits.
\<close>

definition recipeDatabase :: database where
  "recipeDatabase =
     \<lparr>keyColumn = (\<lambda>t. if t = ''recipe'' then Some ''id'' else None),
      tables = (\<lambda>t.
        if t = ''recipe'' then
          [[(''id'', Integer 1), (''name'', Text ''IPA''), (''rtype'', Text ''All Grain'')],
           [(''id'', Integer 2), (''name'', Text ''Stout''), (''rtype'', Text ''Bogus'')]]
        else if t = ''hop_in_recipe'' then
          [[(''recipe_id'', Integer 1), (''hop_id'', Integer 7), (''ord'', Integer 1)],
           [(''recipe_id'', Integer 1), (''hop_id'', Integer 3), (''ord'', Integer 2)],
           [(''recipe_id'', Integer 99), (''hop_id'', Integer 5), (''ord'', Integer 1)],
           [(''recipe_id'', Integer 1), (''hop_id'', Integer 5), (''ord'', Integer 3)]]
        else if t = ''style_in_recipe'' then
          [[(''recipe_id'', Integer 1), (''style_id'', Integer 43)],
           [(''recipe_id'', Integer 1), (''style_id'', Integer 42)]]
        else [])\<rparr>"

definition duplicateKeyDatabase :: database where
  "duplicateKeyDatabase =
     \<lparr>keyColumn = (\<lambda>t. if t = ''recipe'' then Some ''id'' else None),
      tables = (\<lambda>t.
        if t = ''recipe'' then
          [[(''id'', Integer 1), (''name'', Text ''IPA''), (''rtype'', Text ''All Grain'')],
           [(''id'', Integer 1), (''name'', Text ''Stout''), (''rtype'', Text ''Extract'')]]
        else [])\<rparr>"

definition wideKeyDatabase :: database where
  "wideKeyDatabase =
     \<lparr>keyColumn = (\<lambda>t. if t = ''recipe'' then Some ''id'' else None),
      tables = (\<lambda>t.
        if t = ''recipe'' then
          [[(''id'', Integer 4294967297), (''name'', Text ''Stout''), (''rtype'', Text ''Extract'')]]
        else [])\<rparr>"

definition collidingKeyDatabase :: database where
  "collidingKeyDatabase =
     \<lparr>keyColumn = (\<lambda>t. if t = ''recipe'' then Some ''id'' else None),
      tables = (\<lambda>t.
        if t = ''recipe'' then
          [[(''id'', Integer 1), (''name'', Text ''IPA''), (''rtype'', Text ''All Grain'')],
           [(''id'', Integer 4294967297), (''name'', Text ''Stout''), (''rtype'', Text ''Extract'')]]
        else [])\<rparr>"

definition startState :: "database \<Rightarrow> state" where
  "startState db = \<lparr>allObjects = Map.empty, durable = db, pending = db, trace = []\<rparr>"

definition recipeWithOneHop :: qobject where
  "recipeWithOneHop = assign ''hopIds'' (VList [VInt 9]) savedRecipe"

definition recipeWithTwoHops :: qobject where
  "recipeWithTwoHops = assign ''hopIds'' (VList [VInt 9, VInt 4]) savedRecipe"

definition recipeWithTwoStyles :: qobject where
  "recipeWithTwoStyles =
     [(''key'', VInt (- 1)), (''name'', VString ''IPA''), (''type'', VInt 1),
      (''hopIds'', VList []), (''styleId'', VList [VInt 42, VInt 43])]"

text \<open>
  \<open>loadedProperty\<close>: \<^verbatim>\<open>loadAll\<close> by a store with an empty cache on a database, then
  \<^verbatim>\<open>getById\<close> and the value of a property of the object found. \<open>insertThenReload\<close>:
  \<^verbatim>\<open>insert\<close> of an object, then the same on the database as committed.
\<close>

definition loadedProperty :: "driver \<Rightarrow> impl \<Rightarrow> database \<Rightarrow> int \<Rightarrow> cstring \<Rightarrow> qvariant option" where
  "loadedProperty drv st db key name =
     (case loadAll drv st (startState db) of
        Inl e \<Rightarrow> None
      | Inr s \<Rightarrow>
          (case getById s key of
             None \<Rightarrow> None
           | Some loaded \<Rightarrow> Some (property loaded name)))"

definition insertThenReload ::
  "driver \<Rightarrow> impl \<Rightarrow> qobject \<Rightarrow> state \<Rightarrow> int \<Rightarrow> cstring \<Rightarrow> qvariant option" where
  "insertThenReload drv st object s key name =
     (case insert_object drv st object s of
        Inl e \<Rightarrow> None
      | Inr (object', s1) \<Rightarrow> loadedProperty drv st (durable s1) key name)"

definition commitFailingDriver :: driver where
  "commitFailingDriver = reliableDriver\<lparr>commitFails := (\<lambda>db. True)\<rparr>"

definition hopInsertFailingDriver :: driver where
  "hopInsertFailingDriver =
     reliableDriver\<lparr>execFails :=
       (\<lambda>db q. case statement q of InsertInto t cols \<Rightarrow> t = ''hop_in_recipe'' | _ \<Rightarrow> False)\<rparr>"

section \<open>Predicates on traces\<close>

text \<open>
  A statement event is a statement run or a message logged. \<open>statementsOnly s s'\<close> says that
  from \<open>s\<close> to \<open>s'\<close> the process only ran statements and logged: the cache and the committed
  database are the same, and the trace has grown by statement events.
\<close>

definition isStatementEvent :: "event \<Rightarrow> bool" where
  "isStatementEvent e = (case e of Exec q ok \<Rightarrow> True | Critical c \<Rightarrow> True | _ \<Rightarrow> False)"

definition statementsOnly :: "state \<Rightarrow> state \<Rightarrow> bool" where
  "statementsOnly s s' =
     (allObjects s' = allObjects s \<and> durable s' = durable s \<and>
      (\<exists>evs. trace s' = trace s @ evs \<and> list_all isStatementEvent evs))"

definition succeeded :: "event \<Rightarrow> bool" where
  "succeeded e = (case e of Exec q ok \<Rightarrow> ok | _ \<Rightarrow> False)"

text \<open>
  \<open>ran ok s s'\<close>: from \<open>s\<close> to \<open>s'\<close> statements were run and messages logged, the committed
  database and the cache untouched; and if \<open>ok\<close>, every statement succeeded.
\<close>

definition ran :: "bool \<Rightarrow> state \<Rightarrow> state \<Rightarrow> bool" where
  "ran ok s s' =
     (durable s' = durable s \<and>
      (\<exists>evs. trace s' = trace s @ evs \<and> list_all isStatementEvent evs \<and>
             (ok \<longrightarrow> list_all succeeded evs)))"

text \<open>
  How a write operation leaves its transaction: rolled back, with the committed database as
  before the call; or after statements that all succeeded, through the commit.
\<close>

definition rolledBackOrClean :: "state \<Rightarrow> state \<Rightarrow> bool" where
  "rolledBackOrClean s s' =
     ((durable s' = durable s \<and> pending s' = durable s \<and> last (trace s') = Rollback) \<or>
      (\<exists>evs b. trace s' = trace s @ TransactionBegin # evs @ Commit b # (if b then [] else [Rollback]) \<and>
               list_all succeeded evs))"

section \<open>Rows of a junction table\<close>

text \<open>
  One junction row per item of a list. \<open>junctionRow d pk v n\<close> is the row of the key \<open>pk\<close>
  and the item \<open>v\<close>, both as the database stores them, with the order number \<open>n\<close> when the
  definition has an order column; \<open>junctionRows d pk vs n\<close> is one such row for each item of
  \<open>vs\<close>, in the order of the list, the order numbers counting on from \<open>n\<close>.
\<close>

definition junctionRow :: "FieldManyToManyDefn \<Rightarrow> qvariant \<Rightarrow> qvariant \<Rightarrow> int \<Rightarrow> row" where
  "junctionRow d pk v n =
     [(thisPrimaryKeyColumn d, toSql pk), (otherPrimaryKeyColumn d, toSql v)] @
     (if orderByColumn d \<noteq> [] then [(orderByColumn d, Integer n)] else [])"

fun junctionRows :: "FieldManyToManyDefn \<Rightarrow> qvariant \<Rightarrow> qvariant list \<Rightarrow> int \<Rightarrow> row list" where
  "junctionRows d pk [] n = []"
| "junctionRows d pk (v # vs) n = junctionRow d pk v n # junctionRows d pk vs (n + 1)"

text \<open>
  A many-to-many definition is well formed for a database when its three column names are
  different and the database assigns no key to the rows of its junction table.
\<close>

definition wellFormedJunction :: "database \<Rightarrow> FieldManyToManyDefn \<Rightarrow> bool" where
  "wellFormedJunction db d =
     (distinct [thisPrimaryKeyColumn d, otherPrimaryKeyColumn d, orderByColumn d] \<and>
      keyColumn db (tableName_m2m d) = None)"

section \<open>Predicates on states\<close>

text \<open>
  \<open>readOnly s s'\<close>: what a step of the load keeps. The database is the same, committed and
  pending, and the events already in the trace are still there.
\<close>

definition readOnly :: "state \<Rightarrow> state \<Rightarrow> bool" where
  "readOnly s s' =
     (durable s' = durable s \<and> pending s' = pending s \<and> set (trace s) \<subseteq> set (trace s'))"

lemmas flow_defs =
  toInt_def toList_def lookup_def bindValue_def property_def setProperty_def emitEvent_def
  qCritical_def exec_def DbTransaction_def commit_def DbTransaction_destructor_def
  valuesToBind_def junctionInsert_def insertIntoFieldManyToManyDefn_def deleteFromFieldManyToManyDefn_def
  contains_def getById_def encodeValue_def decodeValue_def enumToString_def stringToEnum_def
  insert_object_def commitAndReturn_def
  update_def updateProperty_def hardDelete_def Let_def

lemmas db_defs =
  isValid_def narrow_def toString_def toSql_def fromSql_def columnValue_def matches_def
  storedValue_def sortRows_def orderBy_def resultRows_def insertedRow_def runStatement_def
  lastInsertId_def lookup_def

lemmas load_defs =
  flow_defs db_defs loadAll_def mainQuery_def junctionQuery_def
  readJunctionRows_def multiHashInsert_def multiHashValues_def uniqueKeys_def

lemmas example_defs =
  recipeKeyDefn_def recipeNameDefn_def recipeTypeMapping_def recipeTypeDefn_def
  recipeHopsDefn_def recipeStyleDefn_def recipeStore_def emptyDatabase_def reliableDriver_def
  initialState_def newRecipe_def savedRecipe_def recipeInCache_def commitFailingDriver_def
  hopInsertFailingDriver_def startState_def recipeWithOneHop_def recipeWithTwoHops_def
  recipeWithTwoStyles_def

section \<open>Names and values\<close>

lemma map_of_assign: "map_of (assign n v b) m = (if m = n then Some v else map_of b m)"
  by (induction b) auto

lemma lookup_assign: "lookup (assign n v b) m = (if m = n then v else lookup b m)"
  by (simp add: lookup_def map_of_assign)


section \<open>The cache under the operations\<close>

lemma allObjects_emitEvent [simp]: "allObjects (emitEvent e s) = allObjects s"
  by (simp add: emitEvent_def)

lemma allObjects_qCritical [simp]: "allObjects (qCritical c s) = allObjects s"
  by (simp add: qCritical_def)

lemma allObjects_exec [simp]: "allObjects (snd (exec drv q s)) = allObjects s"
  by (simp add: exec_def)

lemma allObjects_exec_eq: "exec drv q s = (ok, s') \<Longrightarrow> allObjects s' = allObjects s"
  using allObjects_exec[of drv q s] by simp

lemma allObjects_DbTransaction [simp]: "allObjects (DbTransaction s) = allObjects s"
  by (simp add: DbTransaction_def)

lemma allObjects_commit [simp]: "allObjects (snd (commit drv s)) = allObjects s"
  by (simp add: commit_def)

lemma allObjects_destructor [simp]: "allObjects (DbTransaction_destructor c s) = allObjects s"
  by (simp add: DbTransaction_destructor_def)

lemma allObjects_commitAndReturn [simp]: "allObjects (commitAndReturn drv s) = allObjects s"
proof -
  obtain c s' where cs: "commit drv s = (c, s')" by (cases "commit drv s")
  then have "allObjects s' = allObjects s" using allObjects_commit[of drv s] by simp
  with cs show ?thesis by (simp add: commitAndReturn_def)
qed

lemma allObjects_insertItems [simp]:
  "allObjects (snd (insertItems drv defn pk items n q s)) = allObjects s"
proof (induction items arbitrary: n q s)
  case Nil
  show ?case by simp
next
  case (Cons v items)
  let ?q = "(if orderByColumn defn \<noteq> []
             then bindValue (orderByColumn defn) (VInt n)
                    (bindValue (otherPrimaryKeyColumn defn) v
                       (bindValue (thisPrimaryKeyColumn defn) pk q))
             else bindValue (otherPrimaryKeyColumn defn) v
                    (bindValue (thisPrimaryKeyColumn defn) pk q))"
  obtain ok s' where e: "exec drv ?q s = (ok, s')" by (cases "exec drv ?q s")
  then have "allObjects s' = allObjects s" by (rule allObjects_exec_eq)
  with e Cons.IH[of "n + 1" ?q s'] show ?case by (simp add: Let_def)
qed

lemma allObjects_insertInto [simp]:
  "allObjects (snd (insertIntoFieldManyToManyDefn drv defn object pk s)) = allObjects s"
  by (simp add: insertIntoFieldManyToManyDefn_def Let_def)

lemma allObjects_insertInto_eq:
  "insertIntoFieldManyToManyDefn drv defn object pk s = (ok, s') \<Longrightarrow> allObjects s' = allObjects s"
  using allObjects_insertInto[of drv defn object pk s] by simp

lemma allObjects_deleteFrom [simp]:
  "allObjects (snd (deleteFromFieldManyToManyDefn drv defn pk s)) = allObjects s"
proof -
  let ?q = "bindValue (thisPrimaryKeyColumn defn) pk
              \<lparr>statement = DeleteFrom (tableName_m2m defn) (thisPrimaryKeyColumn defn),
               boundValues = []\<rparr>"
  obtain ok s' where e: "exec drv ?q s = (ok, s')" by (cases "exec drv ?q s")
  then have "allObjects s' = allObjects s" by (rule allObjects_exec_eq)
  with e show ?thesis by (simp add: deleteFromFieldManyToManyDefn_def Let_def)
qed

lemma allObjects_deleteFrom_eq:
  "deleteFromFieldManyToManyDefn drv defn pk s = (ok, s') \<Longrightarrow> allObjects s' = allObjects s"
  using allObjects_deleteFrom[of drv defn pk s] by simp

lemma allObjects_updateJunctions [simp]:
  "allObjects (snd (updateJunctions drv defns object pk s)) = allObjects s"
proof (induction defns arbitrary: s)
  case Nil
  show ?case by simp
next
  case (Cons d defns)
  obtain a s1 where d1: "deleteFromFieldManyToManyDefn drv d pk s = (a, s1)"
    by (cases "deleteFromFieldManyToManyDefn drv d pk s")
  obtain b s2 where i1: "insertIntoFieldManyToManyDefn drv d object pk s1 = (b, s2)"
    by (cases "insertIntoFieldManyToManyDefn drv d object pk s1")
  have a1: "allObjects s1 = allObjects s" using d1 by (rule allObjects_deleteFrom_eq)
  have a2: "allObjects s2 = allObjects s1" using i1 by (rule allObjects_insertInto_eq)
  show ?case using d1 i1 a1 a2 Cons.IH[of s2] by simp
qed

lemma allObjects_update:
  assumes "update drv st object s = Inr s'"
  shows "allObjects s' = allObjects s"
proof (cases "fieldSimpleDefns st")
  case Nil
  with assms show ?thesis by (simp add: update_def)
next
  case (Cons keyDefn rest)
  let ?q0 = "\<lparr>statement = Update (tableName st) (map columnName rest) (columnName keyDefn),
              boundValues = []\<rparr>"
  let ?pk = "property object (propertyName keyDefn)"
  show ?thesis
  proof (cases "bindFields (fieldSimpleDefns st) object ?q0")
    case (Inl e)
    with assms Cons show ?thesis by (simp add: update_def Let_def)
  next
    case (Inr q)
    obtain ok s1 where e: "exec drv q (DbTransaction s) = (ok, s1)"
      by (cases "exec drv q (DbTransaction s)")
    have a1: "allObjects s1 = allObjects s" using allObjects_exec_eq[OF e] by simp
    obtain fin s2 where j: "updateJunctions drv (fieldManyToManyDefns st) object ?pk s1 = (fin, s2)"
      by (cases "updateJunctions drv (fieldManyToManyDefns st) object ?pk s1")
    have a2: "allObjects s2 = allObjects s1"
      using allObjects_updateJunctions[of drv "fieldManyToManyDefns st" object ?pk s1] j by simp
    from assms Cons Inr e j a1 a2 show ?thesis
      by (auto simp: update_def Let_def split: if_splits)
  qed
qed

lemma allObjects_updateProperty:
  assumes "updateProperty drv st object name s = Inr s'"
  shows "allObjects s' = allObjects s"
proof (cases "fieldSimpleDefns st")
  case Nil
  with assms show ?thesis by (simp add: updateProperty_def)
next
  case (Cons keyDefn rest)
  let ?pk = "property object (propertyName keyDefn)"
  show ?thesis
  proof (cases "find (\<lambda>fd. chars (propertyName fd) = chars name) (fieldSimpleDefns st)")
    case (Some matchingFieldDefn)
    let ?q0 = "\<lparr>statement = Update (tableName st) [columnName matchingFieldDefn]
                               (columnName keyDefn),
                boundValues = []\<rparr>"
    show ?thesis
    proof (cases "find (\<lambda>fd. address name = address (propertyName fd)) (fieldSimpleDefns st)")
      case None
      with assms Cons Some show ?thesis by (simp add: updateProperty_def Let_def)
    next
      case found: (Some fieldDefn)
      show ?thesis
      proof (cases "encodeValue fieldDefn (property object name)")
        case (Inl e)
        with assms Cons Some found show ?thesis by (simp add: updateProperty_def Let_def)
      next
        case (Inr v)
        let ?q = "bindValue (columnName keyDefn) ?pk
                    (bindValue (columnName matchingFieldDefn) v ?q0)"
        obtain ok s1 where e: "exec drv ?q (DbTransaction s) = (ok, s1)"
          by (cases "exec drv ?q (DbTransaction s)")
        have "allObjects s1 = allObjects s" using allObjects_exec_eq[OF e] by simp
        with assms Cons Some found Inr e show ?thesis
          by (auto simp: updateProperty_def Let_def split: if_splits)
      qed
    qed
  next
    case None
    show ?thesis
    proof (cases "find (\<lambda>jt. chars (propertyName_m2m jt) = chars name) (fieldManyToManyDefns st)")
      case nodefn: None
      with assms Cons None show ?thesis by (simp add: updateProperty_def Let_def)
    next
      case (Some defn)
      obtain a s1 where d1: "deleteFromFieldManyToManyDefn drv defn ?pk (DbTransaction s) = (a, s1)"
        by (cases "deleteFromFieldManyToManyDefn drv defn ?pk (DbTransaction s)")
      obtain b s2 where i1: "insertIntoFieldManyToManyDefn drv defn object ?pk s1 = (b, s2)"
        by (cases "insertIntoFieldManyToManyDefn drv defn object ?pk s1")
      have a1: "allObjects s1 = allObjects s" using allObjects_deleteFrom_eq[OF d1] by simp
      have a2: "allObjects s2 = allObjects s1" using i1 by (rule allObjects_insertInto_eq)
      from assms Cons None Some d1 i1 a1 a2 show ?thesis
        by (auto simp: updateProperty_def Let_def split: if_splits)
    qed
  qed
qed

section \<open>Enum round trip\<close>

lemma find_distinct_key:
  "distinct (map f xs) \<Longrightarrow> x \<in> set xs \<Longrightarrow> find (\<lambda>y. f x = f y) xs = Some x"
  by (induction xs) (auto simp: image_iff)

text \<open>
  Claim C8. For an enum field whose mapping is bijective (no native value and no string occurs
  twice) and for every pair of the mapping, \<^verbatim>\<open>enumToString\<close> of the native value is the
  pair's string, and \<^verbatim>\<open>stringToEnum\<close> of that string is the native value again, with nothing
  logged.
\<close>

theorem enum_round_trip:
  assumes "fieldType fieldDefn = FtEnum" and "enumMapping fieldDefn = Some mapping"
    and "distinct (map native mapping)" and "distinct (map string mapping)"
    and "ii \<in> set mapping"
  shows "enumToString fieldDefn (VInt (native ii)) = Inr (string ii) \<and>
         stringToEnum fieldDefn (VString (string ii)) = Inr (native ii, [])"
  using assms find_distinct_key[of native mapping ii] find_distinct_key[of string mapping ii]
  by (simp add: enumToString_def stringToEnum_def toInt_def toString_def)

theorem enum_round_trip_example:
  "enumToString recipeTypeDefn (VInt 1) = Inr ''All Grain'' \<and>
   stringToEnum recipeTypeDefn (VString ''All Grain'') = Inr (1, [])"
  using enum_round_trip[of recipeTypeDefn recipeTypeMapping
                           "\<lparr>native = 1, string = ''All Grain''\<rparr>"]
  by (simp add: recipeTypeDefn_def recipeTypeMapping_def)

section \<open>softDelete\<close>

text \<open>
  Claim C9. \<^verbatim>\<open>softDelete(id)\<close> removes the cache entry of \<open>id\<close> and nothing else: afterwards
  \<^verbatim>\<open>contains(id)\<close> is false, every other cache entry is as before, and neither the committed
  database, nor the open transaction's view of it, nor the trace (so no statement was run)
  has changed.
\<close>

theorem softDelete_removes_cache_entry_only:
  "\<not> contains (softDelete key s) key \<and>
   allObjects (softDelete key s) = (allObjects s)(key := None) \<and>
   durable (softDelete key s) = durable s \<and>
   pending (softDelete key s) = pending s \<and>
   trace (softDelete key s) = trace s"
  by (simp add: softDelete_def contains_def)

section \<open>update and updateProperty leave the cache alone\<close>

text \<open>
  Claim C10. Whenever \<^verbatim>\<open>update\<close> or \<^verbatim>\<open>updateProperty\<close> returns, whether it committed or
  returned early and rolled back, the cache is the map it was: \<^verbatim>\<open>contains\<close> and \<^verbatim>\<open>getById\<close>
  answer as before for every key.
\<close>

theorem update_leaves_cache:
  "(update drv st object s = Inr s' \<longrightarrow>
      allObjects s' = allObjects s \<and>
      (\<forall>k. contains s' k = contains s k \<and> getById s' k = getById s k)) \<and>
   (updateProperty drv st object name s = Inr s'' \<longrightarrow>
      allObjects s'' = allObjects s \<and>
      (\<forall>k. contains s'' k = contains s k \<and> getById s'' k = getById s k))"
  using allObjects_update[of drv st object s s']
    allObjects_updateProperty[of drv st object name s s'']
  by (simp add: contains_def getById_def)

theorem update_leaves_cache_example:
  "(\<exists>s'. update reliableDriver recipeStore savedRecipe recipeInCache = Inr s' \<and>
         allObjects s' = allObjects recipeInCache \<and> contains s' 1) \<and>
   (\<exists>s''. updateProperty reliableDriver recipeStore savedRecipe (CString 4 ''hopIds'')
            recipeInCache = Inr s'' \<and>
          allObjects s'' = allObjects recipeInCache \<and> contains s'' 1)"
proof -
  obtain s' where u: "update reliableDriver recipeStore savedRecipe recipeInCache = Inr s'"
    by (simp add: flow_defs example_defs)
  obtain s'' where p: "updateProperty reliableDriver recipeStore savedRecipe
                         (CString 4 ''hopIds'') recipeInCache = Inr s''"
    by (simp add: flow_defs example_defs)
  have c: "contains recipeInCache 1"
    by (simp add: contains_def recipeInCache_def)
  from update_leaves_cache[of reliableDriver recipeStore savedRecipe recipeInCache s'
      "CString 4 ''hopIds''" s''] u p c
  show ?thesis by simp
qed

section \<open>The trace of insert\<close>

lemma statementsOnly_refl [simp]: "statementsOnly s s"
  by (simp add: statementsOnly_def)







lemma bindFields_error:
  "bindFields defns object q = Inl e \<Longrightarrow> \<exists>a. e = AssertionFailed a \<and> a \<noteq> PrimaryKeyUnset"
proof (induction defns arbitrary: q)
  case Nil
  then show ?case by simp
next
  case (Cons d defns)
  then show ?case
    by (auto simp: encodeValue_def enumToString_def Let_def split: sum.splits if_splits option.splits)
qed




section \<open>The precondition of insert\<close>

text \<open>
  Claim C7. With the key property named by the first field definition: \<^verbatim>\<open>insert\<close> of an
  object whose key is greater than 0 ends in a failed assertion; \<^verbatim>\<open>insert\<close> of an object
  whose key is at most 0 never fails the assertion \<^verbatim>\<open>currentPrimaryKey <= 0\<close>. (A failed
  \<^verbatim>\<open>Q_ASSERT\<close> aborts a debug build; that is the result \<open>Inl (AssertionFailed _)\<close>.)
\<close>

theorem insert_requires_unset_key:
  assumes "fieldSimpleDefns st = keyDefn # rest"
  shows "(0 < toInt (property object (propertyName keyDefn)) \<longrightarrow>
            (\<exists>a. insert_object drv st object s = Inl (AssertionFailed a))) \<and>
         (toInt (property object (propertyName keyDefn)) \<le> 0 \<longrightarrow>
            insert_object drv st object s \<noteq> Inl (AssertionFailed PrimaryKeyUnset))"
proof -
  let ?q0 = "\<lparr>statement = InsertInto (tableName st) (map columnName (tl (fieldSimpleDefns st))),
              boundValues = []\<rparr>"
  show ?thesis
  proof (cases "bindFields (tl (fieldSimpleDefns st)) object ?q0")
    case (Inl e)
    from bindFields_error[OF Inl] obtain a where "e = AssertionFailed a" "a \<noteq> PrimaryKeyUnset"
      by blast
    with Inl show ?thesis by (simp add: insert_object_def Let_def)
  next
    case (Inr q)
    with assms show ?thesis
      by (auto simp: insert_object_def Let_def split: prod.splits if_splits)
  qed
qed

theorem insert_requires_unset_key_example:
  "0 < toInt (property savedRecipe (propertyName recipeKeyDefn)) \<and>
   insert_object reliableDriver recipeStore savedRecipe initialState =
     Inl (AssertionFailed PrimaryKeyUnset) \<and>
   toInt (property newRecipe (propertyName recipeKeyDefn)) \<le> 0 \<and>
   insert_object reliableDriver recipeStore newRecipe initialState \<noteq>
     Inl (AssertionFailed PrimaryKeyUnset)"
proof -
  have f: "fieldSimpleDefns recipeStore = recipeKeyDefn # [recipeNameDefn, recipeTypeDefn]"
    by (simp add: recipeStore_def)
  have k1: "0 < toInt (property savedRecipe (propertyName recipeKeyDefn))"
    by (simp add: flow_defs example_defs)
  have k2: "toInt (property newRecipe (propertyName recipeKeyDefn)) \<le> 0"
    by (simp add: flow_defs example_defs)
  from insert_requires_unset_key[OF f, of savedRecipe reliableDriver initialState] k1
  obtain a where "insert_object reliableDriver recipeStore savedRecipe initialState =
                    Inl (AssertionFailed a)" by blast
  moreover have "insert_object reliableDriver recipeStore savedRecipe initialState =
                   Inl (AssertionFailed PrimaryKeyUnset)"
    by (simp add: flow_defs example_defs)
  moreover note insert_requires_unset_key[OF f, of newRecipe reliableDriver initialState]
  ultimately show ?thesis using k1 k2 by simp
qed

section \<open>insert and a failed junction-table insert\<close>

text \<open>
  Claim C1, at a failing input. The \<^verbatim>\<open>INSERT\<close> into the junction table of the hops fails.
  \<^verbatim>\<open>insert\<close> does not look at the result of \<^verbatim>\<open>insertIntoFieldManyToManyDefn\<close>: it goes on,
  emits its signal and commits, so the row of the main table is in the committed database
  with none of the recipe's hops. (\<^verbatim>\<open>update\<close>, on the same failure, returns and rolls back.)
\<close>

theorem insert_commits_after_failed_junction_insert:
  "\<exists>object' s'.
     insert_object hopInsertFailingDriver recipeStore newRecipe initialState = Inr (object', s') \<and>
     Exec \<lparr>statement = InsertInto ''hop_in_recipe'' [''recipe_id'', ''hop_id'', ''ord''],
           boundValues = [(''recipe_id'', VLongLong 1), (''hop_id'', VInt 7), (''ord'', VInt 1)]\<rparr>
          False \<in> set (trace s') \<and>
     last (trace s') = Commit True \<and>
     tables (durable initialState) ''recipe'' = [] \<and>
     tables (durable s') ''recipe'' =
       [[(''id'', Integer 1), (''name'', Text ''IPA''), (''rtype'', Text ''All Grain'')]] \<and>
     tables (durable s') ''hop_in_recipe'' = [] \<and>
     allObjects s' 1 = Some object'"
  by (simp add: flow_defs example_defs db_defs)

section \<open>A failed statement in update, updateProperty and hardDelete\<close>

lemma ran_refl [simp]: "ran ok s s"
  by (simp add: ran_def)

lemma ran_trans: "ran ok1 s s1 \<Longrightarrow> ran ok2 s1 s2 \<Longrightarrow> ok2 \<longrightarrow> ok1 \<Longrightarrow> ran ok2 s s2"
  by (auto simp: ran_def)

lemma ran_False: "ran ok s s' \<Longrightarrow> ran False s s'"
  by (auto simp: ran_def)

lemma ran_exec: "exec drv q s = (ok, s') \<Longrightarrow> ran ok s s'"
  by (auto simp: ran_def exec_def emitEvent_def isStatementEvent_def succeeded_def split: if_splits)

lemma ran_qCritical: "ran False s (qCritical c s)"
  by (simp add: ran_def qCritical_def emitEvent_def isStatementEvent_def)

lemma ran_insertItems:
  "insertItems drv defn pk items n q s = (ok, s') \<Longrightarrow> ran ok s s'"
proof (induction items arbitrary: n q s)
  case Nil
  then show ?case by simp
next
  case (Cons v items)
  let ?q = "(if orderByColumn defn \<noteq> []
             then bindValue (orderByColumn defn) (VInt n)
                    (bindValue (otherPrimaryKeyColumn defn) v
                       (bindValue (thisPrimaryKeyColumn defn) pk q))
             else bindValue (otherPrimaryKeyColumn defn) v
                    (bindValue (thisPrimaryKeyColumn defn) pk q))"
  obtain ok1 s1 where e: "exec drv ?q s = (ok1, s1)" by (cases "exec drv ?q s")
  note r1 = ran_exec[OF e]
  show ?case
  proof (cases ok1)
    case True
    with e Cons.prems have rec: "insertItems drv defn pk items (n + 1) ?q s1 = (ok, s')"
      by (simp add: Let_def)
    from ran_trans[OF r1 Cons.IH[OF rec]] True show ?thesis by simp
  next
    case False
    with e Cons.prems have "ok = False" and "s' = qCritical (ErrorExecuting ?q) s1"
      by (simp_all add: Let_def)
    with ran_trans[OF r1 ran_qCritical[of s1 "ErrorExecuting ?q"]] show ?thesis by simp
  qed
qed

lemma ran_insertInto:
  "insertIntoFieldManyToManyDefn drv defn object pk s = (ok, s') \<Longrightarrow> ran ok s s'"
  by (simp add: insertIntoFieldManyToManyDefn_def Let_def ran_insertItems)

lemma ran_deleteFrom:
  assumes "deleteFromFieldManyToManyDefn drv defn pk s = (ok, s')"
  shows "ran ok s s'"
proof -
  let ?q = "bindValue (thisPrimaryKeyColumn defn) pk
              \<lparr>statement = DeleteFrom (tableName_m2m defn) (thisPrimaryKeyColumn defn),
               boundValues = []\<rparr>"
  obtain ok1 s1 where e: "exec drv ?q s = (ok1, s1)" by (cases "exec drv ?q s")
  note r1 = ran_exec[OF e]
  show ?thesis
  proof (cases ok1)
    case True
    with e assms have "ok = True" "s' = s1"
      by (simp_all add: deleteFromFieldManyToManyDefn_def Let_def)
    with r1 True show ?thesis by simp
  next
    case False
    with e assms have "ok = False" and "s' = qCritical (ErrorExecuting ?q) s1"
      by (simp_all add: deleteFromFieldManyToManyDefn_def Let_def)
    with ran_trans[OF r1 ran_qCritical[of s1 "ErrorExecuting ?q"]] show ?thesis by simp
  qed
qed

lemma ran_updateJunctions:
  "updateJunctions drv defns object pk s = (ok, s') \<Longrightarrow> ran ok s s'"
proof (induction defns arbitrary: s)
  case Nil
  then show ?case by simp
next
  case (Cons d defns)
  obtain a s1 where d1: "deleteFromFieldManyToManyDefn drv d pk s = (a, s1)"
    by (cases "deleteFromFieldManyToManyDefn drv d pk s")
  note r1 = ran_deleteFrom[OF d1]
  show ?case
  proof (cases a)
    case False
    with d1 Cons.prems have "ok = False" "s' = s1" by simp_all
    with r1 show ?thesis by (simp add: ran_False)
  next
    case True
    obtain b s2 where i1: "insertIntoFieldManyToManyDefn drv d object pk s1 = (b, s2)"
      by (cases "insertIntoFieldManyToManyDefn drv d object pk s1")
    note r2 = ran_insertInto[OF i1]
    have r12: "ran b s s2" using ran_trans[OF r1 r2] True by simp
    show ?thesis
    proof (cases b)
      case False
      with d1 True i1 Cons.prems have "ok = False" "s' = s2" by simp_all
      with r12 show ?thesis by (simp add: ran_False)
    next
      case b: True
      with d1 True i1 Cons.prems have rec: "updateJunctions drv defns object pk s2 = (ok, s')"
        by simp
      from ran_trans[OF r12 Cons.IH[OF rec]] b show ?thesis by simp
    qed
  qed
qed

lemma ran_deleteJunctions:
  "deleteJunctions drv defns pk s = (ok, s') \<Longrightarrow> ran ok s s'"
proof (induction defns arbitrary: s)
  case Nil
  then show ?case by simp
next
  case (Cons d defns)
  obtain a s1 where d1: "deleteFromFieldManyToManyDefn drv d pk s = (a, s1)"
    by (cases "deleteFromFieldManyToManyDefn drv d pk s")
  note r1 = ran_deleteFrom[OF d1]
  show ?case
  proof (cases a)
    case False
    with d1 Cons.prems have "ok = False" "s' = s1" by simp_all
    with r1 show ?thesis by (simp add: ran_False)
  next
    case True
    with d1 Cons.prems have rec: "deleteJunctions drv defns pk s1 = (ok, s')" by simp
    from ran_trans[OF r1 Cons.IH[OF rec]] True show ?thesis by simp
  qed
qed

lemma rolledBack_destructor:
  assumes "ran ok (DbTransaction s) s1"
  shows "rolledBackOrClean s (DbTransaction_destructor False s1)"
  using assms
  by (auto simp: rolledBackOrClean_def ran_def DbTransaction_destructor_def emitEvent_def
      DbTransaction_def)

lemma clean_commitAndReturn:
  assumes "ran True (DbTransaction s) s1"
  shows "rolledBackOrClean s (commitAndReturn drv s1)"
proof -
  from assms obtain evs where d: "durable s1 = durable s"
    and t: "trace s1 = trace s @ TransactionBegin # evs" and a: "list_all succeeded evs"
    by (auto simp: ran_def DbTransaction_def emitEvent_def)
  have "trace (commitAndReturn drv s1) =
          trace s @ TransactionBegin # evs @
            Commit (\<not> commitFails drv (pending s1)) #
            (if \<not> commitFails drv (pending s1) then [] else [Rollback])"
    using t by (simp add: commitAndReturn_def commit_def DbTransaction_destructor_def emitEvent_def)
  with a show ?thesis unfolding rolledBackOrClean_def by blast
qed

lemma failed_statement_rolled_back:
  assumes "rolledBackOrClean s s'" and "Exec q False \<in> set (drop (length (trace s)) (trace s'))"
  shows "durable s' = durable s \<and> pending s' = durable s \<and> last (trace s') = Rollback"
proof -
  from assms(1) consider
      (rolled) "durable s' = durable s \<and> pending s' = durable s \<and> last (trace s') = Rollback"
    | (clean) evs b where
        "trace s' = trace s @ TransactionBegin # evs @ Commit b # (if b then [] else [Rollback])"
        "list_all succeeded evs"
    unfolding rolledBackOrClean_def by blast
  then show ?thesis
  proof cases
    case rolled
    then show ?thesis .
  next
    case clean
    from clean(1) assms(2) have "Exec q False \<in> set evs" by (auto split: if_splits)
    with clean(2) have "succeeded (Exec q False)" by (simp add: list_all_iff)
    then show ?thesis by (simp add: succeeded_def)
  qed
qed

lemma bindFields_statement:
  "bindFields fds object q0 = Inr q \<Longrightarrow> statement q = statement q0"
proof (induction fds arbitrary: q0)
  case Nil
  then show ?case by simp
next
  case (Cons fd fds)
  then show ?case
    by (cases "encodeValue fd (property object (propertyName fd))") (auto simp: bindValue_def)
qed

lemma update_rolledBackOrClean:
  assumes "update drv st object s = Inr s'"
  shows "rolledBackOrClean s s'"
proof (cases "fieldSimpleDefns st")
  case Nil
  with assms show ?thesis by (simp add: update_def)
next
  case (Cons keyDefn rest)
  let ?q0 = "\<lparr>statement = Update (tableName st) (map columnName rest) (columnName keyDefn),
              boundValues = []\<rparr>"
  let ?pk = "property object (propertyName keyDefn)"
  show ?thesis
  proof (cases "bindFields (fieldSimpleDefns st) object ?q0")
    case (Inl e)
    with assms Cons show ?thesis by (simp add: update_def Let_def)
  next
    case (Inr q)
    obtain ok s1 where e: "exec drv q (DbTransaction s) = (ok, s1)"
      by (cases "exec drv q (DbTransaction s)")
    note r1 = ran_exec[OF e]
    show ?thesis
    proof (cases ok)
      case False
      with assms Cons Inr e
      have "s' = DbTransaction_destructor False (qCritical (ErrorExecuting q) s1)"
        by (simp add: update_def Let_def)
      with rolledBack_destructor[OF ran_trans[OF r1 ran_qCritical[of s1 "ErrorExecuting q"]]]
      show ?thesis by simp
    next
      case True
      obtain fin s2 where j: "updateJunctions drv (fieldManyToManyDefns st) object ?pk s1 = (fin, s2)"
        by (cases "updateJunctions drv (fieldManyToManyDefns st) object ?pk s1")
      have r2: "ran fin (DbTransaction s) s2"
        using ran_trans[OF r1 ran_updateJunctions[OF j]] True by simp
      show ?thesis
      proof (cases fin)
        case False
        with assms Cons Inr e True j have "s' = DbTransaction_destructor False s2"
          by (simp add: update_def Let_def)
        with rolledBack_destructor[OF r2] show ?thesis by simp
      next
        case fin: True
        with assms Cons Inr e True j have "s' = commitAndReturn drv s2"
          by (simp add: update_def Let_def)
        with clean_commitAndReturn[of s s2 drv] r2 fin show ?thesis by simp
      qed
    qed
  qed
qed

lemma updateProperty_rolledBackOrClean:
  assumes "updateProperty drv st object name s = Inr s'"
  shows "rolledBackOrClean s s'"
proof (cases "fieldSimpleDefns st")
  case Nil
  with assms show ?thesis by (simp add: updateProperty_def)
next
  case (Cons keyDefn rest)
  let ?pk = "property object (propertyName keyDefn)"
  show ?thesis
  proof (cases "find (\<lambda>fd. chars (propertyName fd) = chars name) (fieldSimpleDefns st)")
    case (Some matchingFieldDefn)
    let ?q0 = "\<lparr>statement = Update (tableName st) [columnName matchingFieldDefn]
                               (columnName keyDefn),
                boundValues = []\<rparr>"
    show ?thesis
    proof (cases "find (\<lambda>fd. address name = address (propertyName fd)) (fieldSimpleDefns st)")
      case None
      with assms Cons Some show ?thesis by (simp add: updateProperty_def Let_def)
    next
      case found: (Some fieldDefn)
      show ?thesis
      proof (cases "encodeValue fieldDefn (property object name)")
        case (Inl e)
        with assms Cons Some found show ?thesis by (simp add: updateProperty_def Let_def)
      next
        case (Inr v)
        let ?q = "bindValue (columnName keyDefn) ?pk
                    (bindValue (columnName matchingFieldDefn) v ?q0)"
        obtain ok s1 where e: "exec drv ?q (DbTransaction s) = (ok, s1)"
          by (cases "exec drv ?q (DbTransaction s)")
        note r1 = ran_exec[OF e]
        show ?thesis
        proof (cases ok)
          case False
          with assms Cons Some found Inr e
          have "s' = DbTransaction_destructor False (qCritical (ErrorExecuting ?q) s1)"
            by (simp add: updateProperty_def Let_def)
          with rolledBack_destructor[OF ran_trans[OF r1 ran_qCritical[of s1 "ErrorExecuting ?q"]]]
          show ?thesis by simp
        next
          case True
          with assms Cons Some found Inr e have "s' = commitAndReturn drv s1"
            by (simp add: updateProperty_def Let_def)
          with clean_commitAndReturn[of s s1 drv] r1 True show ?thesis by simp
        qed
      qed
    qed
  next
    case None
    show ?thesis
    proof (cases "find (\<lambda>jt. chars (propertyName_m2m jt) = chars name) (fieldManyToManyDefns st)")
      case nodefn: None
      with assms Cons None show ?thesis by (simp add: updateProperty_def Let_def)
    next
      case (Some defn)
      obtain a s1 where d1: "deleteFromFieldManyToManyDefn drv defn ?pk (DbTransaction s) = (a, s1)"
        by (cases "deleteFromFieldManyToManyDefn drv defn ?pk (DbTransaction s)")
      note r1 = ran_deleteFrom[OF d1]
      show ?thesis
      proof (cases a)
        case False
        with assms Cons None Some d1 have "s' = DbTransaction_destructor False s1"
          by (simp add: updateProperty_def Let_def)
        with rolledBack_destructor[OF r1] show ?thesis by simp
      next
        case True
        obtain b s2 where i1: "insertIntoFieldManyToManyDefn drv defn object ?pk s1 = (b, s2)"
          by (cases "insertIntoFieldManyToManyDefn drv defn object ?pk s1")
        have r2: "ran b (DbTransaction s) s2"
          using ran_trans[OF r1 ran_insertInto[OF i1]] True by simp
        show ?thesis
        proof (cases b)
          case False
          with assms Cons None Some d1 True i1 have "s' = DbTransaction_destructor False s2"
            by (simp add: updateProperty_def Let_def)
          with rolledBack_destructor[OF r2] show ?thesis by simp
        next
          case b: True
          with assms Cons None Some d1 True i1 have "s' = commitAndReturn drv s2"
            by (simp add: updateProperty_def Let_def)
          with clean_commitAndReturn[of s s2 drv] r2 b show ?thesis by simp
        qed
      qed
    qed
  qed
qed

lemma ran_allObjects: "ran ok s s1 \<Longrightarrow> ran ok s (s1\<lparr>allObjects := m\<rparr>)"
  by (simp add: ran_def)

lemma hardDelete_rolledBackOrClean:
  assumes "hardDelete drv st key s = Inr s'"
  shows "rolledBackOrClean s s'"
proof (cases "fieldSimpleDefns st")
  case Nil
  with assms show ?thesis by (simp add: hardDelete_def)
next
  case (Cons keyDefn rest)
  let ?q = "bindValue (columnName keyDefn) (VInt key)
              \<lparr>statement = DeleteFrom (tableName st) (columnName keyDefn), boundValues = []\<rparr>"
  obtain ok s1 where e: "exec drv ?q (DbTransaction s) = (ok, s1)"
    by (cases "exec drv ?q (DbTransaction s)")
  note r1 = ran_exec[OF e]
  show ?thesis
  proof (cases ok)
    case False
    with assms Cons e
    have "s' = DbTransaction_destructor False (qCritical (ErrorExecuting ?q) s1)"
      by (simp add: hardDelete_def Let_def)
    with rolledBack_destructor[OF ran_trans[OF r1 ran_qCritical[of s1 "ErrorExecuting ?q"]]]
    show ?thesis by simp
  next
    case True
    obtain fin s2 where j: "deleteJunctions drv (fieldManyToManyDefns st) (VInt key) s1 = (fin, s2)"
      by (cases "deleteJunctions drv (fieldManyToManyDefns st) (VInt key) s1")
    have r2: "ran fin (DbTransaction s) s2"
      using ran_trans[OF r1 ran_deleteJunctions[OF j]] True by simp
    show ?thesis
    proof (cases fin)
      case False
      with assms Cons e True j have "s' = DbTransaction_destructor False s2"
        by (simp add: hardDelete_def Let_def)
      with rolledBack_destructor[OF r2] show ?thesis by simp
    next
      case fin: True
      with assms Cons e True j
      have "s' = commitAndReturn drv (s2\<lparr>allObjects := (allObjects s2)(key := None)\<rparr>)"
        by (simp add: hardDelete_def Let_def)
      moreover from r2 fin have "ran True (DbTransaction s) (s2\<lparr>allObjects := (allObjects s2)(key := None)\<rparr>)"
        using ran_allObjects by simp
      ultimately show ?thesis using clean_commitAndReturn by simp
    qed
  qed
qed


text \<open>
  Beyond the claims: what claim C1 says holds for the other three write operations. If a
  statement run inside \<^verbatim>\<open>update\<close>, \<^verbatim>\<open>updateProperty\<close> or \<^verbatim>\<open>hardDelete\<close> fails, the operation
  ends with the rollback, and the committed database is what it was before the call.
\<close>

theorem failed_statement_rolls_back:
  "(update drv st object s = Inr s1 \<and>
      Exec q1 False \<in> set (drop (length (trace s)) (trace s1)) \<longrightarrow>
      durable s1 = durable s \<and> pending s1 = durable s \<and> last (trace s1) = Rollback) \<and>
   (updateProperty drv st object name s = Inr s2 \<and>
      Exec q2 False \<in> set (drop (length (trace s)) (trace s2)) \<longrightarrow>
      durable s2 = durable s \<and> pending s2 = durable s \<and> last (trace s2) = Rollback) \<and>
   (hardDelete drv st key s = Inr s3 \<and>
      Exec q3 False \<in> set (drop (length (trace s)) (trace s3)) \<longrightarrow>
      durable s3 = durable s \<and> pending s3 = durable s \<and> last (trace s3) = Rollback)"
  using failed_statement_rolled_back[OF update_rolledBackOrClean, of drv st object s s1 q1]
    failed_statement_rolled_back[OF updateProperty_rolledBackOrClean, of drv st object name s s2 q2]
    failed_statement_rolled_back[OF hardDelete_rolledBackOrClean, of drv st key s s3 q3]
  by blast

theorem failed_statement_rolls_back_example:
  "\<exists>s1 q. update hopInsertFailingDriver recipeStore savedRecipe (startState recipeDatabase) = Inr s1 \<and>
          Exec q False \<in> set (drop (length (trace (startState recipeDatabase))) (trace s1)) \<and>
          durable s1 = durable (startState recipeDatabase) \<and>
          last (trace s1) = Rollback"
proof -
  have "\<exists>s1 q. update hopInsertFailingDriver recipeStore savedRecipe (startState recipeDatabase) = Inr s1 \<and>
          Exec q False \<in> set (drop (length (trace (startState recipeDatabase))) (trace s1))"
    by (simp add: flow_defs example_defs)
  then obtain s1 q where
    u: "update hopInsertFailingDriver recipeStore savedRecipe (startState recipeDatabase) = Inr s1"
    and f: "Exec q False \<in> set (drop (length (trace (startState recipeDatabase))) (trace s1))"
    by blast
  from failed_statement_rolls_back[of hopInsertFailingDriver recipeStore savedRecipe
      "startState recipeDatabase" s1 q] u f
  show ?thesis by blast
qed

section \<open>loadAll\<close>

subsection \<open>Rows of the main table\<close>

lemma map_of_project:
  "map_of (filter (\<lambda>cv. fst cv \<in> S) r) c = (if c \<in> S then map_of r c else None)"
  by (induction r) auto

lemma columnValue_project:
  "c \<in> S \<Longrightarrow> columnValue (filter (\<lambda>cv. fst cv \<in> S) r) c = columnValue r c"
  by (simp add: columnValue_def map_of_project)

lemma set_insertRow [simp]: "set (insertRow c r rows) = insert r (set rows)"
  by (induction rows) auto

lemma set_sortRows [simp]: "set (sortRows c rows) = set rows"
  by (induction rows) (simp_all add: sortRows_def)

lemma set_orderBy [simp]: "set (orderBy cols rows) = set rows"
  by (induction cols) (simp_all add: orderBy_def)

lemma readOnly_refl [simp]: "readOnly s s"
  by (simp add: readOnly_def)

lemma readOnly_trans: "readOnly s s1 \<Longrightarrow> readOnly s1 s2 \<Longrightarrow> readOnly s s2"
  by (auto simp: readOnly_def)

lemma readOnly_qCritical [simp]: "readOnly s (qCritical c s)"
  by (auto simp: readOnly_def qCritical_def emitEvent_def)

lemma readOnly_allObjects [simp]: "readOnly s (s\<lparr>allObjects := m\<rparr>)"
  by (simp add: readOnly_def)

lemma readOnly_trace [simp]: "readOnly s (s\<lparr>trace := trace s @ evs\<rparr>)"
  by (simp add: readOnly_def)

lemma stringToEnum_error:
  "stringToEnum fd v = Inl e \<Longrightarrow> \<exists>a. e = AssertionFailed a"
  by (auto simp: stringToEnum_def Let_def split: if_splits option.splits)

lemma decodeValue_error:
  "decodeValue fd v = Inl e \<Longrightarrow> \<exists>a. e = AssertionFailed a"
  by (auto simp: decodeValue_def split: if_splits sum.splits dest: stringToEnum_error)

lemma readFields_step:
  assumes "isValid (columnValue r (columnName fd))"
    and "decodeValue fd (columnValue r (columnName fd)) = Inr (v, evs)"
    and "map_of b (chars (propertyName fd)) = None"
  shows "readFields t (fd # fds) r b rpk pk s =
         readFields t fds r (assign (chars (propertyName fd)) v b) True
           (if \<not> rpk then toInt v else pk) (s\<lparr>trace := trace s @ evs\<rparr>)"
  using assms by (simp add: Let_def)

lemma readFields_Inr:
  "readFields t fds r b rpk pk s = Inr (b', pk', s') \<Longrightarrow>
     allObjects s' = allObjects s \<and> readOnly s s' \<and> (rpk \<longrightarrow> pk' = pk)"
proof (induction fds arbitrary: b rpk pk s)
  case Nil
  then show ?case by simp
next
  case (Cons fd fds)
  show ?case
  proof (cases "isValid (columnValue r (columnName fd))")
    case False
    with Cons.prems show ?thesis by (auto simp: Let_def)
  next
    case True
    show ?thesis
    proof (cases "decodeValue fd (columnValue r (columnName fd))")
      case (Inl e)
      with True Cons.prems show ?thesis by (simp add: Let_def)
    next
      case (Inr ve)
      obtain v evs where ve: "ve = (v, evs)" by (cases ve)
      show ?thesis
      proof (cases "map_of b (chars (propertyName fd)) = None")
        case False
        with True Inr ve Cons.prems show ?thesis by (simp add: Let_def)
      next
        case none: True
        from Cons.prems readFields_step[OF True Inr[unfolded ve] none, of t fds rpk pk s]
        have rec: "readFields t fds r (assign (chars (propertyName fd)) v b) True
              (if \<not> rpk then toInt v else pk) (s\<lparr>trace := trace s @ evs\<rparr>) = Inr (b', pk', s')"
          by simp
        from Cons.IH[OF rec] have "allObjects s' = allObjects s"
          and ro: "readOnly (s\<lparr>trace := trace s @ evs\<rparr>) s'"
          and "pk' = (if \<not> rpk then toInt v else pk)" by simp_all
        moreover have "readOnly s s'" using readOnly_trans[OF readOnly_trace ro] .
        ultimately show ?thesis by simp
      qed
    qed
  qed
qed

lemma readFields_key:
  assumes "readFields t (keyDefn # rest) r b False pk s = Inr (b', pk', s')"
    and "isValid (columnValue r (columnName keyDefn))" and "fieldType keyDefn \<noteq> FtEnum"
  shows "pk' = toInt (columnValue r (columnName keyDefn))"
proof -
  let ?v = "columnValue r (columnName keyDefn)"
  have d: "decodeValue keyDefn ?v = Inr (?v, [])" using assms(3) by (simp add: decodeValue_def)
  show ?thesis
  proof (cases "map_of b (chars (propertyName keyDefn)) = None")
    case False
    with assms(1,2) d show ?thesis by (simp add: Let_def)
  next
    case True
    from assms(1) readFields_step[OF assms(2) d True, of t rest False pk s]
    have rec: "readFields t rest r (assign (chars (propertyName keyDefn)) ?v b) True
              (toInt ?v) s = Inr (b', pk', s')"
      by simp
    from readFields_Inr[OF rec] show ?thesis by simp
  qed
qed

lemma readFields_error:
  "readFields t fds r b rpk pk s = Inl e \<Longrightarrow> \<exists>a. e = AssertionFailed a"
proof (induction fds arbitrary: b rpk pk s)
  case Nil
  then show ?case by simp
next
  case (Cons fd fds)
  show ?case
  proof (cases "isValid (columnValue r (columnName fd))")
    case False
    with Cons.prems show ?thesis by (simp add: Let_def)
  next
    case True
    show ?thesis
    proof (cases "decodeValue fd (columnValue r (columnName fd))")
      case (Inl e')
      with True Cons.prems have "e = e'" by (simp add: Let_def)
      with decodeValue_error[OF Inl] show ?thesis by simp
    next
      case (Inr ve)
      obtain v evs where ve: "ve = (v, evs)" by (cases ve)
      show ?thesis
      proof (cases "map_of b (chars (propertyName fd)) = None")
        case False
        with True Inr ve Cons.prems show ?thesis by (auto simp add: Let_def)
      next
        case none: True
        from Cons.prems readFields_step[OF True Inr[unfolded ve] none, of t fds rpk pk s]
        have rec: "readFields t fds r (assign (chars (propertyName fd)) v b) True
              (if \<not> rpk then toInt v else pk) (s\<lparr>trace := trace s @ evs\<rparr>) = Inl e"
          by simp
        from Cons.IH[OF rec] show ?thesis .
      qed
    qed
  qed
qed

lemma loadRows_error:
  "loadRows st rows s = Inl e \<Longrightarrow> \<exists>a. e = AssertionFailed a"
proof (induction rows arbitrary: s)
  case Nil
  then show ?case by simp
next
  case (Cons r rows)
  show ?case
  proof (cases "readFields (tableName st) (fieldSimpleDefns st) r [] False (- 1) s")
    case (Inl e')
    with Cons.prems have "e = e'" by simp
    with readFields_error[OF Inl] show ?thesis by simp
  next
    case (Inr res)
    obtain b pk s1 where res: "res = (b, pk, s1)" by (cases res)
    show ?thesis
    proof (cases "contains s1 pk")
      case True
      with Inr res Cons.prems show ?thesis by (auto simp: Let_def)
    next
      case False
      with Inr res Cons.prems
      have "loadRows st rows (s1\<lparr>allObjects := (allObjects s1)(pk \<mapsto> createNewObject st b)\<rparr>) = Inl e"
        by (simp add: Let_def)
      from Cons.IH[OF this] show ?thesis .
    qed
  qed
qed

lemma loadRows_Inr:
  assumes "loadRows st rows s = Inr s'"
    and "fieldSimpleDefns st = keyDefn # rest" and "fieldType keyDefn \<noteq> FtEnum"
    and "\<forall>r \<in> set rows. isValid (columnValue r (columnName keyDefn))"
  shows "distinct (map (\<lambda>r. toInt (columnValue r (columnName keyDefn))) rows) \<and>
         set (map (\<lambda>r. toInt (columnValue r (columnName keyDefn))) rows) \<inter> dom (allObjects s) = {} \<and>
         dom (allObjects s') = dom (allObjects s) \<union> set (map (\<lambda>r. toInt (columnValue r (columnName keyDefn))) rows) \<and>
         readOnly s s'"
  using assms(1,4)
proof (induction rows arbitrary: s)
  case Nil
  then show ?case by simp
next
  case (Cons r rows)
  let ?key = "\<lambda>r. toInt (columnValue r (columnName keyDefn))"
  from Cons.prems(1) obtain b pk s1 where
    rf: "readFields (tableName st) (fieldSimpleDefns st) r [] False (- 1) s = Inr (b, pk, s1)"
    by (cases "readFields (tableName st) (fieldSimpleDefns st) r [] False (- 1) s") auto
  from rf assms(2,3) Cons.prems(2) have pk: "pk = ?key r"
    using readFields_key[of "tableName st" keyDefn rest r "[]" "- 1" s b pk s1] by simp
  from readFields_Inr[OF rf] have a1: "allObjects s1 = allObjects s" and ro1: "readOnly s s1"
    by simp_all
  let ?s2 = "s1\<lparr>allObjects := (allObjects s1)(pk \<mapsto> createNewObject st b)\<rparr>"
  have nc: "\<not> contains s1 pk"
  proof
    assume "contains s1 pk"
    with Cons.prems(1) rf show False by (simp add: Let_def)
  qed
  with Cons.prems(1) rf have rec: "loadRows st rows ?s2 = Inr s'"
    by (simp add: Let_def)
  have v: "\<forall>r \<in> set rows. isValid (columnValue r (columnName keyDefn))"
    using Cons.prems(2) by simp
  have d2: "dom (allObjects ?s2) = insert pk (dom (allObjects s1))" by simp
  from Cons.IH[OF rec v]
  have ih: "distinct (map ?key rows)" "set (map ?key rows) \<inter> dom (allObjects ?s2) = {}"
    "dom (allObjects s') = dom (allObjects ?s2) \<union> set (map ?key rows)" "readOnly ?s2 s'"
    by blast+
  have ro: "readOnly s s'"
    using readOnly_trans[OF ro1 readOnly_trans[OF readOnly_allObjects ih(4)]] .
  from nc a1 pk have notin: "?key r \<notin> dom (allObjects s)" by (auto simp: contains_def)
  from ih(1) ih(2)[unfolded d2] ih(3)[unfolded d2] a1 pk notin have
    "distinct (map ?key (r # rows)) \<and>
     set (map ?key (r # rows)) \<inter> dom (allObjects s) = {} \<and>
     dom (allObjects s') = dom (allObjects s) \<union> set (map ?key (r # rows))"
    by auto
  with ro show ?case by simp
qed

subsection \<open>Rows of the junction tables\<close>

lemma multiHashValues_nonempty:
  "k \<in> set (uniqueKeys h) \<Longrightarrow> multiHashValues h k \<noteq> []"
  by (auto simp: uniqueKeys_def multiHashValues_def filter_empty_conv)

lemma applyRelations_step_known:
  assumes "allObjects s k = Some ob" and "multiHashValues h k = v # vs"
  shows "applyRelations d h (k # ks) s =
         applyRelations d h ks
           (s\<lparr>allObjects := (allObjects s)(k \<mapsto>
                 setProperty (propertyName_m2m d)
                   (if assumeMaxOneEntry d then v else VList (v # vs)) ob)\<rparr>)"
  using assms by (simp add: contains_def getById_def Let_def)

lemma applyRelations_step_unknown:
  assumes "allObjects s k = None"
  shows "applyRelations d h (k # ks) s =
         applyRelations d h ks (qCritical (IgnoringRecord (tableName_m2m d) k) s)"
  using assms by (simp add: contains_def)

lemma applyRelations_Inr:
  assumes "\<forall>k \<in> set ks. multiHashValues h k \<noteq> []"
  shows "\<exists>s'. applyRelations d h ks s = Inr s' \<and>
              dom (allObjects s') = dom (allObjects s) \<and> readOnly s s' \<and>
              (\<forall>k \<in> set ks. k \<notin> dom (allObjects s) \<longrightarrow>
                 Critical (IgnoringRecord (tableName_m2m d) k) \<in> set (trace s'))"
  using assms
proof (induction ks arbitrary: s)
  case Nil
  then show ?case by simp
next
  case (Cons k ks)
  have rest: "\<forall>k \<in> set ks. multiHashValues h k \<noteq> []" using Cons.prems by simp
  show ?case
  proof (cases "allObjects s k")
    case None
    let ?s1 = "qCritical (IgnoringRecord (tableName_m2m d) k) s"
    from Cons.IH[OF rest, of ?s1] obtain s' where
      r: "applyRelations d h ks ?s1 = Inr s'" and
      dm: "dom (allObjects s') = dom (allObjects ?s1)" and ro: "readOnly ?s1 s'" and
      ig: "\<forall>k \<in> set ks. k \<notin> dom (allObjects ?s1) \<longrightarrow>
                 Critical (IgnoringRecord (tableName_m2m d) k) \<in> set (trace s')"
      by blast
    have here: "Critical (IgnoringRecord (tableName_m2m d) k) \<in> set (trace ?s1)"
      by (simp add: qCritical_def emitEvent_def)
    with ro have "Critical (IgnoringRecord (tableName_m2m d) k) \<in> set (trace s')"
      by (auto simp: readOnly_def)
    moreover have "readOnly s s'" using readOnly_trans[OF readOnly_qCritical ro] .
    moreover have "applyRelations d h (k # ks) s = Inr s'"
      using applyRelations_step_unknown[OF None] r by simp
    ultimately show ?thesis using dm ig by auto
  next
    case (Some ob)
    from Cons.prems obtain v vs where vs: "multiHashValues h k = v # vs"
      by (cases "multiHashValues h k") auto
    let ?s1 = "s\<lparr>allObjects := (allObjects s)(k \<mapsto>
                 setProperty (propertyName_m2m d)
                   (if assumeMaxOneEntry d then v else VList (v # vs)) ob)\<rparr>"
    have d1: "dom (allObjects ?s1) = dom (allObjects s)" using Some by auto
    from Cons.IH[OF rest, of ?s1] obtain s' where
      r: "applyRelations d h ks ?s1 = Inr s'" and
      dm: "dom (allObjects s') = dom (allObjects ?s1)" and ro: "readOnly ?s1 s'" and
      ig: "\<forall>k \<in> set ks. k \<notin> dom (allObjects ?s1) \<longrightarrow>
                 Critical (IgnoringRecord (tableName_m2m d) k) \<in> set (trace s')"
      by blast
    have "readOnly s s'" using readOnly_trans[OF readOnly_allObjects ro] .
    moreover have "applyRelations d h (k # ks) s = Inr s'"
      using applyRelations_step_known[OF Some vs] r by simp
    moreover have "k \<in> dom (allObjects s)" using Some by auto
    ultimately show ?thesis using dm[unfolded d1] ig[unfolded d1] by auto
  qed
qed

lemma readJunctionRows_eq:
  "readJunctionRows d rows =
     rev (map (\<lambda>r. (toInt (columnValue r (thisPrimaryKeyColumn d)), columnValue r (otherPrimaryKeyColumn d))) rows)"
proof -
  have "\<And>acc. foldl (\<lambda>h r. multiHashInsert (toInt (columnValue r (thisPrimaryKeyColumn d)))
                                   (columnValue r (otherPrimaryKeyColumn d)) h) acc rows =
     rev (map (\<lambda>r. (toInt (columnValue r (thisPrimaryKeyColumn d)), columnValue r (otherPrimaryKeyColumn d))) rows) @ acc"
    by (induction rows) (simp_all add: multiHashInsert_def)
  then show ?thesis by (simp add: readJunctionRows_def)
qed

lemma columnValue_project2:
  "columnValue (filter (\<lambda>cv. fst cv = a \<or> fst cv = b) r) a = columnValue r a"
  using columnValue_project[of a "{a, b}" r] by simp

lemma junction_keys:
  "set (uniqueKeys (readJunctionRows d (resultRows (junctionQuery d) db))) =
   (\<lambda>r. toInt (columnValue r (thisPrimaryKeyColumn d))) ` set (tables db (tableName_m2m d))"
  by (simp add: uniqueKeys_def readJunctionRows_eq resultRows_def junctionQuery_def image_image
      columnValue_project2)

lemma exec_select:
  assumes "statement q = Select t cols order"
  shows "allObjects (snd (exec drv q s)) = allObjects s \<and> readOnly s (snd (exec drv q s))"
  using assms by (auto simp: exec_def readOnly_def emitEvent_def runStatement_def)

lemma loadJunctions_Inr:
  "\<exists>fin s'. loadJunctions drv ds s = Inr (fin, s') \<and>
      dom (allObjects s') = dom (allObjects s) \<and> readOnly s s' \<and>
      ((\<forall>db q. \<not> execFails drv db q) \<longrightarrow>
         fin \<and>
         (\<forall>d \<in> set ds. \<forall>r \<in> set (tables (pending s) (tableName_m2m d)).
            toInt (columnValue r (thisPrimaryKeyColumn d)) \<notin> dom (allObjects s) \<longrightarrow>
            Critical (IgnoringRecord (tableName_m2m d) (toInt (columnValue r (thisPrimaryKeyColumn d))))
              \<in> set (trace s')))"
proof (induction ds arbitrary: s)
  case Nil
  show ?case by (intro exI[of _ True] exI[of _ s]) simp
next
  case (Cons d ds)
  let ?q = "junctionQuery d"
  let ?h = "readJunctionRows d (resultRows ?q (pending s))"
  obtain ok s1 where e: "exec drv ?q s = (ok, s1)" by (cases "exec drv ?q s")
  have sel: "statement ?q = Select (tableName_m2m d)
          [thisPrimaryKeyColumn d, otherPrimaryKeyColumn d]
          [thisPrimaryKeyColumn d,
           if orderByColumn d \<noteq> [] then orderByColumn d else otherPrimaryKeyColumn d]"
    by (simp add: junctionQuery_def)
  from exec_select[OF sel, of drv s] e
  have a1: "allObjects s1 = allObjects s" and ro1: "readOnly s s1" by simp_all
  show ?case
  proof (cases ok)
    case False
    with e have r: "loadJunctions drv (d # ds) s = Inr (False, qCritical (ErrorExecuting ?q) s1)"
      by (simp add: Let_def)
    have "readOnly s (qCritical (ErrorExecuting ?q) s1)"
      using readOnly_trans[OF ro1 readOnly_qCritical] .
    moreover from e False have "execFails drv (pending s) ?q"
      by (auto simp: exec_def split: if_splits)
    ultimately show ?thesis using r a1 by auto
  next
    case True
    have ne: "\<forall>k \<in> set (uniqueKeys ?h). multiHashValues ?h k \<noteq> []"
      using multiHashValues_nonempty by blast
    from applyRelations_Inr[OF ne, of d s1] obtain s2 where
      ar: "applyRelations d ?h (uniqueKeys ?h) s1 = Inr s2" and
      d2: "dom (allObjects s2) = dom (allObjects s1)" and ro2: "readOnly s1 s2" and
      ig2: "\<forall>k \<in> set (uniqueKeys ?h). k \<notin> dom (allObjects s1) \<longrightarrow>
                 Critical (IgnoringRecord (tableName_m2m d) k) \<in> set (trace s2)"
      by blast
    from Cons.IH[of s2] obtain fin s' where
      lj: "loadJunctions drv ds s2 = Inr (fin, s')" and
      d3: "dom (allObjects s') = dom (allObjects s2)" and ro3: "readOnly s2 s'" and
      ig3: "(\<forall>db q. \<not> execFails drv db q) \<longrightarrow>
         fin \<and>
         (\<forall>d \<in> set ds. \<forall>r \<in> set (tables (pending s2) (tableName_m2m d)).
            toInt (columnValue r (thisPrimaryKeyColumn d)) \<notin> dom (allObjects s2) \<longrightarrow>
            Critical (IgnoringRecord (tableName_m2m d) (toInt (columnValue r (thisPrimaryKeyColumn d))))
              \<in> set (trace s'))"
      by blast
    from e True ar lj have r: "loadJunctions drv (d # ds) s = Inr (fin, s')"
      by (simp add: Let_def)
    have ro: "readOnly s s'" using readOnly_trans[OF ro1 readOnly_trans[OF ro2 ro3]] .
    have dm: "dom (allObjects s') = dom (allObjects s)" using d3 d2 a1 by simp
    have p2: "pending s2 = pending s" using ro1 ro2 by (simp add: readOnly_def)
    have ds2: "dom (allObjects s2) = dom (allObjects s)" using d2 a1 by simp
    have here: "\<forall>r \<in> set (tables (pending s) (tableName_m2m d)).
            toInt (columnValue r (thisPrimaryKeyColumn d)) \<notin> dom (allObjects s) \<longrightarrow>
            Critical (IgnoringRecord (tableName_m2m d) (toInt (columnValue r (thisPrimaryKeyColumn d))))
              \<in> set (trace s')"
    proof (intro ballI impI)
      fix r assume r: "r \<in> set (tables (pending s) (tableName_m2m d))"
        and n: "toInt (columnValue r (thisPrimaryKeyColumn d)) \<notin> dom (allObjects s)"
      from r have "toInt (columnValue r (thisPrimaryKeyColumn d)) \<in> set (uniqueKeys ?h)"
        unfolding junction_keys by blast
      with ig2 n a1 have "Critical (IgnoringRecord (tableName_m2m d)
            (toInt (columnValue r (thisPrimaryKeyColumn d)))) \<in> set (trace s2)" by simp
      with ro3 show "Critical (IgnoringRecord (tableName_m2m d)
            (toInt (columnValue r (thisPrimaryKeyColumn d)))) \<in> set (trace s')"
        by (auto simp: readOnly_def)
    qed
    show ?thesis
      using r ro dm here ig3[unfolded p2 ds2] by auto
  qed
qed

lemma orderBy_Nil [simp]: "orderBy [] rows = rows"
  by (simp add: orderBy_def)

lemma mainQuery_rows:
  "resultRows (mainQuery st) db =
     map (\<lambda>r. filter (\<lambda>cv. fst cv \<in> set (map columnName (fieldSimpleDefns st))) r)
         (tables db (tableName st))"
  by (simp add: resultRows_def mainQuery_def)

lemma mainQuery_keys:
  assumes "fieldSimpleDefns st = keyDefn # rest"
  shows "map (\<lambda>r. f (columnValue r (columnName keyDefn))) (resultRows (mainQuery st) db) =
         map (\<lambda>r. f (columnValue r (columnName keyDefn))) (tables db (tableName st))"
  using assms columnValue_project[of "columnName keyDefn" "set (map columnName (fieldSimpleDefns st))"]
  by (simp add: mainQuery_rows comp_def)

lemma loadAll_after_rows:
  assumes "\<not> execFails drv (durable s0) (mainQuery st)"
  shows "loadAll drv st s0 =
     (case loadRows st (resultRows (mainQuery st) (durable s0))
             (emitEvent (Exec (mainQuery st) True) (DbTransaction s0)) of
        Inl e \<Rightarrow> Inl e
      | Inr s2 \<Rightarrow>
          (case loadJunctions drv (fieldManyToManyDefns st) s2 of
             Inl e \<Rightarrow> Inl e
           | Inr (finished, s3) \<Rightarrow>
               if \<not> finished then Inr (DbTransaction_destructor False s3)
               else Inr (commitAndReturn drv s3)))"
proof -
  have p: "pending (DbTransaction s0) = durable s0" by (simp add: DbTransaction_def emitEvent_def)
  have "runStatement drv (mainQuery st) (durable s0) = durable s0"
    by (simp add: runStatement_def mainQuery_def)
  with assms p have "exec drv (mainQuery st) (DbTransaction s0) =
     (True, emitEvent (Exec (mainQuery st) True) (DbTransaction s0))"
    by (simp add: exec_def DbTransaction_def emitEvent_def)
  with p show ?thesis
    by (simp add: loadAll_def Let_def commitAndReturn_def split: sum.splits prod.splits)
qed



text \<open>
  Claim C2. Take a store whose first field definition is the key and is not an enum, a cache
  that is empty, a \<^verbatim>\<open>SELECT\<close> on the main table that does not fail and rows that all deliver
  a value in the key column. The key of a row is the integer value of its first declared
  column as \<^verbatim>\<open>QVariant::toInt\<close> gives it, a C \<^verbatim>\<open>int\<close>: of a 64-bit value the low 32 bits. If
  \<^verbatim>\<open>loadAll\<close> returns, the keys of the rows are pairwise different and the cache holds an
  entry under exactly those keys, so one entry per row; and if two rows have the same key,
  \<^verbatim>\<open>loadAll\<close> ends in a failed assertion instead of overwriting.
\<close>

theorem loadAll_one_entry_per_row:
  assumes "fieldSimpleDefns st = keyDefn # rest" and "fieldType keyDefn \<noteq> FtEnum"
    and "allObjects s0 = Map.empty"
    and "\<not> execFails drv (durable s0) (mainQuery st)"
    and "\<forall>r \<in> set (tables (durable s0) (tableName st)). isValid (columnValue r (columnName keyDefn))"
  shows "(loadAll drv st s0 = Inr s' \<longrightarrow>
            distinct (map (\<lambda>r. toInt (columnValue r (columnName keyDefn)))
                          (tables (durable s0) (tableName st))) \<and>
            dom (allObjects s') =
              set (map (\<lambda>r. toInt (columnValue r (columnName keyDefn)))
                       (tables (durable s0) (tableName st)))) \<and>
         (\<not> distinct (map (\<lambda>r. toInt (columnValue r (columnName keyDefn)))
                           (tables (durable s0) (tableName st))) \<longrightarrow>
            (\<exists>a. loadAll drv st s0 = Inl (AssertionFailed a)))"
proof -
  let ?rows = "resultRows (mainQuery st) (durable s0)"
  let ?s1 = "emitEvent (Exec (mainQuery st) True) (DbTransaction s0)"
  let ?key = "\<lambda>r. toInt (columnValue r (columnName keyDefn))"
  have keys: "map ?key ?rows = map ?key (tables (durable s0) (tableName st))"
    using mainQuery_keys[OF assms(1), of toInt] .
  have "map (\<lambda>r. isValid (columnValue r (columnName keyDefn))) ?rows =
        map (\<lambda>r. isValid (columnValue r (columnName keyDefn))) (tables (durable s0) (tableName st))"
    using mainQuery_keys[OF assms(1), of isValid] .
  then have "set (map (\<lambda>r. isValid (columnValue r (columnName keyDefn))) ?rows) =
        set (map (\<lambda>r. isValid (columnValue r (columnName keyDefn))) (tables (durable s0) (tableName st)))"
    by simp
  with assms(5) have valid: "\<forall>r \<in> set ?rows. isValid (columnValue r (columnName keyDefn))"
    by (simp only: set_map) blast
  have e1: "dom (allObjects ?s1) = {}" using assms(3) by (simp add: DbTransaction_def emitEvent_def)
  show ?thesis
  proof (cases "loadRows st ?rows ?s1")
    case (Inl e)
    from loadRows_error[OF Inl] obtain a where "e = AssertionFailed a" by blast
    with Inl show ?thesis by (simp add: loadAll_after_rows[OF assms(4)])
  next
    case (Inr s2)
    from loadRows_Inr[OF Inr assms(1,2) valid]
    have dk: "distinct (map ?key ?rows)" and d2: "dom (allObjects s2) = dom (allObjects ?s1) \<union> set (map ?key ?rows)"
      by blast+
    from loadJunctions_Inr[of drv "fieldManyToManyDefns st" s2] obtain fin s3 where
      lj: "loadJunctions drv (fieldManyToManyDefns st) s2 = Inr (fin, s3)" and
      d3: "dom (allObjects s3) = dom (allObjects s2)" by blast
    let ?S = "if \<not> fin then DbTransaction_destructor False s3 else commitAndReturn drv s3"
    from Inr lj have r: "loadAll drv st s0 = Inr ?S"
      by (simp add: loadAll_after_rows[OF assms(4)])
    have "allObjects ?S = allObjects s3" by simp
    then have "dom (allObjects ?S) = dom (allObjects s3)" by simp
    also have "\<dots> = set (map ?key (tables (durable s0) (tableName st)))"
      using d3 d2 e1 keys by simp
    finally have dm: "dom (allObjects ?S) = set (map ?key (tables (durable s0) (tableName st)))" .
    from dk keys have dk': "distinct (map ?key (tables (durable s0) (tableName st)))" by simp
    show ?thesis
    proof (intro conjI impI)
      assume "loadAll drv st s0 = Inr s'"
      with r have "s' = ?S" by simp
      with dm show "dom (allObjects s') = set (map ?key (tables (durable s0) (tableName st)))"
        by (simp only:)
    next
      show "distinct (map ?key (tables (durable s0) (tableName st)))" by (rule dk')
    next
      assume "\<not> distinct (map ?key (tables (durable s0) (tableName st)))"
      with dk' show "\<exists>a. loadAll drv st s0 = Inl (AssertionFailed a)" by simp
    qed
  qed
qed

theorem loadAll_one_entry_per_row_example:
  "(\<exists>s'. loadAll reliableDriver recipeStore (startState recipeDatabase) = Inr s' \<and>
         dom (allObjects s') = {1, 2}) \<and>
   (\<exists>s'. loadAll reliableDriver recipeStore (startState wideKeyDatabase) = Inr s' \<and>
         dom (allObjects s') = {1}) \<and>
   (\<exists>a. loadAll reliableDriver recipeStore (startState duplicateKeyDatabase) =
           Inl (AssertionFailed a)) \<and>
   (\<exists>a. loadAll reliableDriver recipeStore (startState collidingKeyDatabase) =
           Inl (AssertionFailed a))"
proof -
  have h1: "fieldSimpleDefns recipeStore = recipeKeyDefn # [recipeNameDefn, recipeTypeDefn]"
    by (simp add: recipeStore_def)
  have h2: "fieldType recipeKeyDefn \<noteq> FtEnum" by (simp add: recipeKeyDefn_def)
  have h3: "allObjects (startState db) = Map.empty" for db by (simp add: startState_def)
  have h4: "\<not> execFails reliableDriver (durable (startState db)) (mainQuery recipeStore)" for db
    by (simp add: reliableDriver_def)
  have v1: "\<forall>r \<in> set (tables (durable (startState recipeDatabase)) (tableName recipeStore)).
              isValid (columnValue r (columnName recipeKeyDefn))"
    by (simp add: startState_def recipeDatabase_def recipeStore_def recipeKeyDefn_def
        isValid_def columnValue_def fromSql_def)
  have v2: "\<forall>r \<in> set (tables (durable (startState wideKeyDatabase)) (tableName recipeStore)).
              isValid (columnValue r (columnName recipeKeyDefn))"
    by (simp add: startState_def wideKeyDatabase_def recipeStore_def recipeKeyDefn_def
        isValid_def columnValue_def fromSql_def)
  have v3: "\<forall>r \<in> set (tables (durable (startState duplicateKeyDatabase)) (tableName recipeStore)).
              isValid (columnValue r (columnName recipeKeyDefn))"
    by (simp add: startState_def duplicateKeyDatabase_def recipeStore_def recipeKeyDefn_def
        isValid_def columnValue_def fromSql_def)
  have v4: "\<forall>r \<in> set (tables (durable (startState collidingKeyDatabase)) (tableName recipeStore)).
              isValid (columnValue r (columnName recipeKeyDefn))"
    by (simp add: startState_def collidingKeyDatabase_def recipeStore_def recipeKeyDefn_def
        isValid_def columnValue_def fromSql_def)
  have k1: "map (\<lambda>r. toInt (columnValue r (columnName recipeKeyDefn)))
             (tables (durable (startState recipeDatabase)) (tableName recipeStore)) = [1, 2]"
    by (simp add: startState_def recipeDatabase_def recipeStore_def recipeKeyDefn_def
        toInt_def narrow_def columnValue_def fromSql_def)
  have k2: "map (\<lambda>r. toInt (columnValue r (columnName recipeKeyDefn)))
             (tables (durable (startState wideKeyDatabase)) (tableName recipeStore)) = [1]"
    by (simp add: startState_def wideKeyDatabase_def recipeStore_def recipeKeyDefn_def
        toInt_def narrow_def columnValue_def fromSql_def)
  have k3: "map (\<lambda>r. toInt (columnValue r (columnName recipeKeyDefn)))
             (tables (durable (startState duplicateKeyDatabase)) (tableName recipeStore)) = [1, 1]"
    by (simp add: startState_def duplicateKeyDatabase_def recipeStore_def recipeKeyDefn_def
        toInt_def narrow_def columnValue_def fromSql_def)
  have k4: "map (\<lambda>r. toInt (columnValue r (columnName recipeKeyDefn)))
             (tables (durable (startState collidingKeyDatabase)) (tableName recipeStore)) = [1, 1]"
    by (simp add: startState_def collidingKeyDatabase_def recipeStore_def recipeKeyDefn_def
        toInt_def narrow_def columnValue_def fromSql_def)
  obtain s1 where r1: "loadAll reliableDriver recipeStore (startState recipeDatabase) = Inr s1"
    by (simp add: load_defs example_defs recipeDatabase_def)
  obtain s2 where r2: "loadAll reliableDriver recipeStore (startState wideKeyDatabase) = Inr s2"
    by (simp add: load_defs example_defs wideKeyDatabase_def)
  from loadAll_one_entry_per_row[OF h1 h2 h3 h4 v1, of s1] r1 k1
  have "dom (allObjects s1) = {1, 2}" by auto
  moreover from loadAll_one_entry_per_row[OF h1 h2 h3 h4 v2, of s2] r2 k2
  have "dom (allObjects s2) = {1}" by auto
  moreover from loadAll_one_entry_per_row[OF h1 h2 h3 h4 v3] k3
  have "\<exists>a. loadAll reliableDriver recipeStore (startState duplicateKeyDatabase) =
           Inl (AssertionFailed a)" by simp
  moreover from loadAll_one_entry_per_row[OF h1 h2 h3 h4 v4] k4
  have "\<exists>a. loadAll reliableDriver recipeStore (startState collidingKeyDatabase) =
           Inl (AssertionFailed a)" by simp
  ultimately show ?thesis using r1 r2 by simp
qed














section \<open>update and the junction tables\<close>

lemma exec_ok:
  "exec drv q s = (ok, s') \<Longrightarrow> ok \<Longrightarrow>
     s' = emitEvent (Exec q True) (s\<lparr>pending := runStatement drv q (pending s)\<rparr>)"
  by (auto simp: exec_def split: if_splits)

lemma insertItems_rows:
  assumes "insertItems drv d pk items n q s = (True, s')"
    and "statement q = junctionInsert d"
    and "wellFormedJunction (pending s) d"
  shows "tables (pending s') =
           (tables (pending s))(tableName_m2m d :=
              tables (pending s) (tableName_m2m d) @ junctionRows d pk items n) \<and>
         keyColumn (pending s') = keyColumn (pending s)"
  using assms
proof (induction items arbitrary: n q s)
  case Nil
  then show ?case by simp
next
  case (Cons v items)
  let ?q = "(if orderByColumn d \<noteq> []
             then bindValue (orderByColumn d) (VInt n)
                    (bindValue (otherPrimaryKeyColumn d) v
                       (bindValue (thisPrimaryKeyColumn d) pk q))
             else bindValue (otherPrimaryKeyColumn d) v
                    (bindValue (thisPrimaryKeyColumn d) pk q))"
  obtain ok s1 where e: "exec drv ?q s = (ok, s1)" by (cases "exec drv ?q s")
  from Cons.prems(1) e have ok: ok by (cases ok) (simp_all add: Let_def)
  from Cons.prems(1) e ok have rec: "insertItems drv d pk items (n + 1) ?q s1 = (True, s')"
    by (simp add: Let_def)
  have sq: "statement ?q = junctionInsert d" using Cons.prems(2) by (simp add: bindValue_def)
  from Cons.prems(3) have dc: "thisPrimaryKeyColumn d \<noteq> otherPrimaryKeyColumn d"
    "thisPrimaryKeyColumn d \<noteq> orderByColumn d" "otherPrimaryKeyColumn d \<noteq> orderByColumn d"
    and kc: "keyColumn (pending s) (tableName_m2m d) = None"
    by (auto simp: wellFormedJunction_def)
  have row: "insertedRow drv ?q (pending s) (tableName_m2m d)
               ([thisPrimaryKeyColumn d, otherPrimaryKeyColumn d] @
                (if orderByColumn d \<noteq> [] then [orderByColumn d] else [])) = junctionRow d pk v n"
    using dc kc
    by (simp add: insertedRow_def junctionRow_def bindValue_def lookup_assign toSql_def)
  have s1: "s1 = emitEvent (Exec ?q True) (s\<lparr>pending := runStatement drv ?q (pending s)\<rparr>)"
    using exec_ok[OF e ok] .
  have p1: "pending s1 = (pending s)\<lparr>tables := (tables (pending s))(tableName_m2m d :=
              tables (pending s) (tableName_m2m d) @ [junctionRow d pk v n])\<rparr>"
    unfolding s1 using sq row
    by (simp add: emitEvent_def runStatement_def junctionInsert_def)
  then have wf1: "wellFormedJunction (pending s1) d"
    using Cons.prems(3) by (simp add: wellFormedJunction_def)
  from Cons.IH[OF rec sq wf1] p1 show ?case by (simp add: fun_eq_iff)
qed

lemma insertInto_rows:
  assumes "insertIntoFieldManyToManyDefn drv d object pk s = (True, s')"
    and "wellFormedJunction (pending s) d"
  shows "tables (pending s') =
           (tables (pending s))(tableName_m2m d :=
              tables (pending s) (tableName_m2m d) @ junctionRows d pk (valuesToBind d object) 1) \<and>
         keyColumn (pending s') = keyColumn (pending s)"
proof -
  let ?q = "\<lparr>statement = junctionInsert d, boundValues = []\<rparr>"
  from assms(1) have i: "insertItems drv d pk (valuesToBind d object) 1 ?q s = (True, s')"
    by (simp add: insertIntoFieldManyToManyDefn_def junctionInsert_def Let_def)
  have "statement ?q = junctionInsert d" by simp
  from insertItems_rows[OF i this assms(2)] show ?thesis .
qed

lemma deleteFrom_rows:
  assumes "deleteFromFieldManyToManyDefn drv d pk s = (True, s')"
  shows "tables (pending s') =
           (tables (pending s))(tableName_m2m d :=
              filter (\<lambda>r. \<not> matches r (thisPrimaryKeyColumn d) pk)
                     (tables (pending s) (tableName_m2m d))) \<and>
         keyColumn (pending s') = keyColumn (pending s)"
proof -
  let ?q = "bindValue (thisPrimaryKeyColumn d) pk
              \<lparr>statement = DeleteFrom (tableName_m2m d) (thisPrimaryKeyColumn d),
               boundValues = []\<rparr>"
  obtain ok s1 where e: "exec drv ?q s = (ok, s1)" by (cases "exec drv ?q s")
  from assms e have ok: ok and s': "s' = s1"
    by (auto simp: deleteFromFieldManyToManyDefn_def Let_def split: if_splits)
  have "s1 = emitEvent (Exec ?q True) (s\<lparr>pending := runStatement drv ?q (pending s)\<rparr>)"
    using exec_ok[OF e ok] .
  with s' show ?thesis
    by (simp add: emitEvent_def runStatement_def bindValue_def lookup_def)
qed

lemma updateJunctions_rows:
  assumes "updateJunctions drv ds object pk s = (True, s')"
    and "distinct (map tableName_m2m ds)"
    and "\<forall>d \<in> set ds. wellFormedJunction (pending s) d"
  shows "(\<forall>d \<in> set ds.
            tables (pending s') (tableName_m2m d) =
              filter (\<lambda>r. \<not> matches r (thisPrimaryKeyColumn d) pk)
                     (tables (pending s) (tableName_m2m d)) @
              junctionRows d pk (valuesToBind d object) 1) \<and>
         (\<forall>t. t \<notin> set (map tableName_m2m ds) \<longrightarrow>
            tables (pending s') t = tables (pending s) t) \<and>
         keyColumn (pending s') = keyColumn (pending s)"
  using assms
proof (induction ds arbitrary: s)
  case Nil
  then show ?case by simp
next
  case (Cons d ds)
  obtain a s1 where d1: "deleteFromFieldManyToManyDefn drv d pk s = (a, s1)"
    by (cases "deleteFromFieldManyToManyDefn drv d pk s")
  from Cons.prems(1) d1 have a: a by (cases a) simp_all
  obtain b s2 where i1: "insertIntoFieldManyToManyDefn drv d object pk s1 = (b, s2)"
    by (cases "insertIntoFieldManyToManyDefn drv d object pk s1")
  from Cons.prems(1) d1 a i1 have b: b by (cases b) simp_all
  from Cons.prems(1) d1 a i1 b have rec: "updateJunctions drv ds object pk s2 = (True, s')"
    by simp
  from a d1 have d1': "deleteFromFieldManyToManyDefn drv d pk s = (True, s1)" by simp
  from b i1 have i1': "insertIntoFieldManyToManyDefn drv d object pk s1 = (True, s2)" by simp
  from deleteFrom_rows[OF d1']
  have t1: "tables (pending s1) =
           (tables (pending s))(tableName_m2m d :=
              filter (\<lambda>r. \<not> matches r (thisPrimaryKeyColumn d) pk)
                     (tables (pending s) (tableName_m2m d)))"
    and k1: "keyColumn (pending s1) = keyColumn (pending s)" by simp_all
  have wf1: "wellFormedJunction (pending s1) d"
    using Cons.prems(3) k1 by (simp add: wellFormedJunction_def)
  from insertInto_rows[OF i1' wf1]
  have t2: "tables (pending s2) =
           (tables (pending s1))(tableName_m2m d :=
              tables (pending s1) (tableName_m2m d) @ junctionRows d pk (valuesToBind d object) 1)"
    and k2: "keyColumn (pending s2) = keyColumn (pending s1)" by simp_all
  have dd: "distinct (map tableName_m2m ds)" and nd: "tableName_m2m d \<notin> set (map tableName_m2m ds)"
    using Cons.prems(2) by simp_all
  have wf2: "\<forall>d \<in> set ds. wellFormedJunction (pending s2) d"
    using Cons.prems(3) k1 k2 by (simp add: wellFormedJunction_def)
  from Cons.IH[OF rec dd wf2]
  have ih1: "\<forall>d \<in> set ds.
            tables (pending s') (tableName_m2m d) =
              filter (\<lambda>r. \<not> matches r (thisPrimaryKeyColumn d) pk)
                     (tables (pending s2) (tableName_m2m d)) @
              junctionRows d pk (valuesToBind d object) 1"
    and ih2: "\<forall>t. t \<notin> set (map tableName_m2m ds) \<longrightarrow>
            tables (pending s') t = tables (pending s2) t"
    and ih3: "keyColumn (pending s') = keyColumn (pending s2)" by blast+
  have here: "tables (pending s') (tableName_m2m d) =
              filter (\<lambda>r. \<not> matches r (thisPrimaryKeyColumn d) pk)
                     (tables (pending s) (tableName_m2m d)) @
              junctionRows d pk (valuesToBind d object) 1"
    using ih2 nd t2 t1 by simp
  have others: "\<forall>d' \<in> set ds.
            tables (pending s') (tableName_m2m d') =
              filter (\<lambda>r. \<not> matches r (thisPrimaryKeyColumn d') pk)
                     (tables (pending s) (tableName_m2m d')) @
              junctionRows d' pk (valuesToBind d' object) 1"
  proof
    fix d' assume m: "d' \<in> set ds"
    with nd have "tableName_m2m d' \<noteq> tableName_m2m d" by (force simp: image_iff)
    then have "tables (pending s2) (tableName_m2m d') = tables (pending s) (tableName_m2m d')"
      using t2 t1 by simp
    with ih1 m show "tables (pending s') (tableName_m2m d') =
              filter (\<lambda>r. \<not> matches r (thisPrimaryKeyColumn d') pk)
                     (tables (pending s) (tableName_m2m d')) @
              junctionRows d' pk (valuesToBind d' object) 1" by simp
  qed
  have frame: "\<forall>t. t \<notin> set (map tableName_m2m (d # ds)) \<longrightarrow>
            tables (pending s') t = tables (pending s) t"
    using ih2 t2 t1 by simp
  from here others frame ih3 k2 k1 show ?case by simp
qed

lemma last_destructor_False [simp]: "last (trace (DbTransaction_destructor False s)) = Rollback"
  by (simp add: DbTransaction_destructor_def emitEvent_def)

lemma commitAndReturn_committed:
  assumes "last (trace (commitAndReturn drv s)) = Commit True"
  shows "durable (commitAndReturn drv s) = pending s"
  using assms
  by (auto simp: commitAndReturn_def commit_def DbTransaction_destructor_def emitEvent_def
      split: if_splits)

lemma junctionRows_match:
  assumes "toSql pk \<noteq> Null"
  shows "filter (\<lambda>r. matches r (thisPrimaryKeyColumn d) pk) (junctionRows d pk vs n) =
         junctionRows d pk vs n"
  using assms
  by (induction vs arbitrary: n) (simp_all add: matches_def junctionRow_def)

lemma junctionRows_otherKeys:
  assumes "thisPrimaryKeyColumn d \<noteq> otherPrimaryKeyColumn d"
  shows "map (\<lambda>r. storedValue r (otherPrimaryKeyColumn d)) (junctionRows d pk vs n) = map toSql vs"
  using assms
  by (induction vs arbitrary: n) (simp_all add: storedValue_def junctionRow_def)

lemma update_junction_table:
  assumes "update drv st object s = Inr s'" and "last (trace s') = Commit True"
    and "fieldSimpleDefns st = keyDefn # rest"
    and "distinct (map tableName_m2m (fieldManyToManyDefns st))"
    and "tableName st \<notin> set (map tableName_m2m (fieldManyToManyDefns st))"
    and "\<forall>d \<in> set (fieldManyToManyDefns st). wellFormedJunction (durable s) d"
    and "d \<in> set (fieldManyToManyDefns st)"
  shows "tables (durable s') (tableName_m2m d) =
           filter (\<lambda>r. \<not> matches r (thisPrimaryKeyColumn d) (property object (propertyName keyDefn)))
                  (tables (durable s) (tableName_m2m d)) @
           junctionRows d (property object (propertyName keyDefn)) (valuesToBind d object) 1"
proof -
  let ?pk = "property object (propertyName keyDefn)"
  let ?q0 = "\<lparr>statement = Update (tableName st) (map columnName rest) (columnName keyDefn),
              boundValues = []\<rparr>"
  let ?s = "DbTransaction s"
  obtain q where bf: "bindFields (fieldSimpleDefns st) object ?q0 = Inr q"
    using assms(1,3) by (cases "bindFields (fieldSimpleDefns st) object ?q0")
      (simp_all add: update_def Let_def)
  have sq: "statement q = statement ?q0" using bf by (rule bindFields_statement)
  obtain ok s1 where e: "exec drv q ?s = (ok, s1)" by (cases "exec drv q ?s")
  have ok: ok
  proof (rule ccontr)
    assume "\<not> ok"
    with assms(1,3) bf e have "s' = DbTransaction_destructor False (qCritical (ErrorExecuting q) s1)"
      by (simp add: update_def Let_def)
    with assms(2) show False by simp
  qed
  obtain fin s2 where uj: "updateJunctions drv (fieldManyToManyDefns st) object ?pk s1 = (fin, s2)"
    by (cases "updateJunctions drv (fieldManyToManyDefns st) object ?pk s1")
  have fin: fin
  proof (rule ccontr)
    assume "\<not> fin"
    with assms(1,3) bf e ok uj have "s' = DbTransaction_destructor False s2"
      by (simp add: update_def Let_def)
    with assms(2) show False by simp
  qed
  from assms(1,3) bf e ok uj fin have s': "s' = commitAndReturn drv s2"
    by (simp add: update_def Let_def)
  from commitAndReturn_committed[of drv s2] assms(2) s' have dur: "durable s' = pending s2" by simp
  have s1: "s1 = emitEvent (Exec q True) (?s\<lparr>pending := runStatement drv q (pending ?s)\<rparr>)"
    using exec_ok[OF e ok] .
  have p1: "pending s1 = runStatement drv q (durable s)"
    unfolding s1 by (simp add: emitEvent_def DbTransaction_def)
  have k1: "keyColumn (pending s1) = keyColumn (durable s)"
    unfolding p1 using sq by (simp add: runStatement_def)
  have t1: "\<forall>t. t \<noteq> tableName st \<longrightarrow> tables (pending s1) t = tables (durable s) t"
    unfolding p1 using sq by (simp add: runStatement_def)
  have wf1: "\<forall>d \<in> set (fieldManyToManyDefns st). wellFormedJunction (pending s1) d"
    using assms(6) k1 by (simp add: wellFormedJunction_def)
  from fin uj have uj': "updateJunctions drv (fieldManyToManyDefns st) object ?pk s1 = (True, s2)"
    by simp
  from updateJunctions_rows[OF uj' assms(4) wf1] assms(7)
  have "tables (pending s2) (tableName_m2m d) =
              filter (\<lambda>r. \<not> matches r (thisPrimaryKeyColumn d) ?pk)
                     (tables (pending s1) (tableName_m2m d)) @
              junctionRows d ?pk (valuesToBind d object) 1" by blast
  moreover from assms(5,7) have "tableName_m2m d \<noteq> tableName st" by (force simp: image_iff)
  ultimately show ?thesis using t1 dur by simp
qed

text \<open>
  Claim C3. Take an object whose key property holds a value that is not null, and a store
  whose junction tables are pairwise different, different from the main table and well
  formed. When \<^verbatim>\<open>update\<close> has committed, the junction table of a many-to-many definition
  holds the rows it held for other keys, followed by the new rows of this key, whatever rows
  the key had before. For a definition without \<^verbatim>\<open>assumeMaxOneEntry\<close> and an object whose
  relation property is the list \<open>items\<close>, the new rows are one row per entry of \<open>items\<close>, in
  the order of the list, the order column counting from 1: the other keys stored for the key
  are the entries of the list, and there are as many rows as entries. For a definition with
  \<^verbatim>\<open>assumeMaxOneEntry\<close> the key has the one row of the property's value. So after an
  update with the list [x] the key has exactly the row of x.
\<close>

theorem update_resyncs_junction_rows:
  assumes "update drv st object s = Inr s'" and "last (trace s') = Commit True"
    and "fieldSimpleDefns st = keyDefn # rest"
    and "toSql (property object (propertyName keyDefn)) \<noteq> Null"
    and "distinct (map tableName_m2m (fieldManyToManyDefns st))"
    and "tableName st \<notin> set (map tableName_m2m (fieldManyToManyDefns st))"
    and "\<forall>d \<in> set (fieldManyToManyDefns st). wellFormedJunction (durable s) d"
    and "d \<in> set (fieldManyToManyDefns st)"
  shows "(\<not> assumeMaxOneEntry d \<and> property object (propertyName_m2m d) = VList items \<longrightarrow>
            tables (durable s') (tableName_m2m d) =
              filter (\<lambda>r. \<not> matches r (thisPrimaryKeyColumn d) (property object (propertyName keyDefn)))
                     (tables (durable s) (tableName_m2m d)) @
              junctionRows d (property object (propertyName keyDefn)) items 1 \<and>
            filter (\<lambda>r. matches r (thisPrimaryKeyColumn d) (property object (propertyName keyDefn)))
                   (tables (durable s') (tableName_m2m d)) =
              junctionRows d (property object (propertyName keyDefn)) items 1 \<and>
            map (\<lambda>r. storedValue r (otherPrimaryKeyColumn d))
                (filter (\<lambda>r. matches r (thisPrimaryKeyColumn d) (property object (propertyName keyDefn)))
                        (tables (durable s') (tableName_m2m d))) =
              map toSql items \<and>
            length (filter (\<lambda>r. matches r (thisPrimaryKeyColumn d) (property object (propertyName keyDefn)))
                           (tables (durable s') (tableName_m2m d))) =
              length items) \<and>
         (assumeMaxOneEntry d \<longrightarrow>
            filter (\<lambda>r. matches r (thisPrimaryKeyColumn d) (property object (propertyName keyDefn)))
                   (tables (durable s') (tableName_m2m d)) =
              [junctionRow d (property object (propertyName keyDefn))
                 (property object (propertyName_m2m d)) 1])"
proof -
  let ?pk = "property object (propertyName keyDefn)"
  let ?old = "filter (\<lambda>r. \<not> matches r (thisPrimaryKeyColumn d) ?pk)
                     (tables (durable s) (tableName_m2m d))"
  note eq = update_junction_table[OF assms(1,2,3,5,6,7,8)]
  from assms(7,8) have cols: "thisPrimaryKeyColumn d \<noteq> otherPrimaryKeyColumn d"
    by (auto simp: wellFormedJunction_def)
  have own: "filter (\<lambda>r. matches r (thisPrimaryKeyColumn d) ?pk)
               (?old @ junctionRows d ?pk vs 1) = junctionRows d ?pk vs 1" for vs
    using junctionRows_match[OF assms(4), of d vs 1] by simp
  show ?thesis
  proof (intro conjI impI)
    assume a: "\<not> assumeMaxOneEntry d \<and> property object (propertyName_m2m d) = VList items"
    then have v: "valuesToBind d object = items" by (simp add: valuesToBind_def toList_def)
    show t: "tables (durable s') (tableName_m2m d) = ?old @ junctionRows d ?pk items 1"
      using eq v by simp
    show f: "filter (\<lambda>r. matches r (thisPrimaryKeyColumn d) ?pk)
               (tables (durable s') (tableName_m2m d)) = junctionRows d ?pk items 1"
      unfolding t by (rule own)
    show "map (\<lambda>r. storedValue r (otherPrimaryKeyColumn d))
            (filter (\<lambda>r. matches r (thisPrimaryKeyColumn d) ?pk)
                    (tables (durable s') (tableName_m2m d))) = map toSql items"
      unfolding f by (rule junctionRows_otherKeys[OF cols])
    have "length (junctionRows d ?pk items n) = length items" for n
      by (induction items arbitrary: n) simp_all
    then show "length (filter (\<lambda>r. matches r (thisPrimaryKeyColumn d) ?pk)
                         (tables (durable s') (tableName_m2m d))) = length items"
      unfolding f by simp
  next
    assume a: "assumeMaxOneEntry d"
    then have v: "valuesToBind d object = [property object (propertyName_m2m d)]"
      by (simp add: valuesToBind_def toList_def)
    have t: "tables (durable s') (tableName_m2m d) =
               ?old @ junctionRows d ?pk [property object (propertyName_m2m d)] 1"
      using eq v by simp
    show "filter (\<lambda>r. matches r (thisPrimaryKeyColumn d) ?pk)
               (tables (durable s') (tableName_m2m d)) =
            [junctionRow d ?pk (property object (propertyName_m2m d)) 1]"
      unfolding t using own[of "[property object (propertyName_m2m d)]"] by simp
  qed
qed

theorem update_resyncs_junction_rows_example:
  "(\<exists>s'. update reliableDriver recipeStore recipeWithOneHop (startState recipeDatabase) = Inr s' \<and>
         last (trace s') = Commit True \<and>
         filter (\<lambda>r. matches r ''recipe_id'' (VInt 1))
                (tables (durable (startState recipeDatabase)) ''hop_in_recipe'') =
           [[(''recipe_id'', Integer 1), (''hop_id'', Integer 7), (''ord'', Integer 1)],
            [(''recipe_id'', Integer 1), (''hop_id'', Integer 3), (''ord'', Integer 2)],
            [(''recipe_id'', Integer 1), (''hop_id'', Integer 5), (''ord'', Integer 3)]] \<and>
         filter (\<lambda>r. matches r ''recipe_id'' (VInt 1)) (tables (durable s') ''hop_in_recipe'') =
           [[(''recipe_id'', Integer 1), (''hop_id'', Integer 9), (''ord'', Integer 1)]]) \<and>
   (\<exists>s'. update reliableDriver recipeStore recipeWithTwoHops (startState recipeDatabase) = Inr s' \<and>
         last (trace s') = Commit True \<and>
         filter (\<lambda>r. matches r ''recipe_id'' (VInt 1)) (tables (durable s') ''hop_in_recipe'') =
           [[(''recipe_id'', Integer 1), (''hop_id'', Integer 9), (''ord'', Integer 1)],
            [(''recipe_id'', Integer 1), (''hop_id'', Integer 4), (''ord'', Integer 2)]])"
proof -
  have h3: "fieldSimpleDefns recipeStore = recipeKeyDefn # [recipeNameDefn, recipeTypeDefn]"
    by (simp add: recipeStore_def)
  have h5: "distinct (map tableName_m2m (fieldManyToManyDefns recipeStore))"
    by (simp add: example_defs)
  have h6: "tableName recipeStore \<notin> set (map tableName_m2m (fieldManyToManyDefns recipeStore))"
    by (simp add: example_defs)
  have h7: "\<forall>d \<in> set (fieldManyToManyDefns recipeStore).
              wellFormedJunction (durable (startState recipeDatabase)) d"
    by (simp add: example_defs recipeDatabase_def wellFormedJunction_def)
  have h8: "recipeHopsDefn \<in> set (fieldManyToManyDefns recipeStore)" by (simp add: recipeStore_def)
  have cols: "thisPrimaryKeyColumn recipeHopsDefn = ''recipe_id''"
    "tableName_m2m recipeHopsDefn = ''hop_in_recipe''" by (simp_all add: recipeHopsDefn_def)
  have before: "filter (\<lambda>r. matches r ''recipe_id'' (VInt 1))
               (tables (durable (startState recipeDatabase)) ''hop_in_recipe'') =
          [[(''recipe_id'', Integer 1), (''hop_id'', Integer 7), (''ord'', Integer 1)],
           [(''recipe_id'', Integer 1), (''hop_id'', Integer 3), (''ord'', Integer 2)],
           [(''recipe_id'', Integer 1), (''hop_id'', Integer 5), (''ord'', Integer 3)]]"
    by (simp add: startState_def recipeDatabase_def matches_def toSql_def)

  have "\<exists>s'. update reliableDriver recipeStore recipeWithOneHop (startState recipeDatabase) = Inr s' \<and>
        last (trace s') = Commit True"
    by (simp add: flow_defs example_defs)
  then obtain s1 where
    u1: "update reliableDriver recipeStore recipeWithOneHop (startState recipeDatabase) = Inr s1"
    and c1: "last (trace s1) = Commit True" by blast
  have pk1: "property recipeWithOneHop (propertyName recipeKeyDefn) = VInt 1"
    by (simp add: example_defs property_def lookup_def)
  have n1: "toSql (property recipeWithOneHop (propertyName recipeKeyDefn)) \<noteq> Null"
    by (simp add: pk1 toSql_def)
  have r1: "\<not> assumeMaxOneEntry recipeHopsDefn \<and>
            property recipeWithOneHop (propertyName_m2m recipeHopsDefn) = VList [VInt 9]"
    by (simp add: example_defs property_def lookup_def)
  have v1: "junctionRows recipeHopsDefn (VInt 1) [VInt 9] 1 =
           [[(''recipe_id'', Integer 1), (''hop_id'', Integer 9), (''ord'', Integer 1)]]"
    by (simp add: recipeHopsDefn_def junctionRow_def toSql_def)
  from update_resyncs_junction_rows[OF u1 c1 h3 n1 h5 h6 h7 h8, of "[VInt 9]"] r1
  have "filter (\<lambda>r. matches r (thisPrimaryKeyColumn recipeHopsDefn)
                        (property recipeWithOneHop (propertyName recipeKeyDefn)))
               (tables (durable s1) (tableName_m2m recipeHopsDefn)) =
          junctionRows recipeHopsDefn (property recipeWithOneHop (propertyName recipeKeyDefn))
            [VInt 9] 1" by blast
  then have after1: "filter (\<lambda>r. matches r ''recipe_id'' (VInt 1)) (tables (durable s1) ''hop_in_recipe'') =
          [[(''recipe_id'', Integer 1), (''hop_id'', Integer 9), (''ord'', Integer 1)]]"
    unfolding pk1 v1 cols .

  have "\<exists>s'. update reliableDriver recipeStore recipeWithTwoHops (startState recipeDatabase) = Inr s' \<and>
        last (trace s') = Commit True"
    by (simp add: flow_defs example_defs)
  then obtain s2 where
    u2: "update reliableDriver recipeStore recipeWithTwoHops (startState recipeDatabase) = Inr s2"
    and c2: "last (trace s2) = Commit True" by blast
  have pk2: "property recipeWithTwoHops (propertyName recipeKeyDefn) = VInt 1"
    by (simp add: example_defs property_def lookup_def)
  have n2: "toSql (property recipeWithTwoHops (propertyName recipeKeyDefn)) \<noteq> Null"
    by (simp add: pk2 toSql_def)
  have r2: "\<not> assumeMaxOneEntry recipeHopsDefn \<and>
            property recipeWithTwoHops (propertyName_m2m recipeHopsDefn) = VList [VInt 9, VInt 4]"
    by (simp add: example_defs property_def lookup_def)
  have v2: "junctionRows recipeHopsDefn (VInt 1) [VInt 9, VInt 4] 1 =
           [[(''recipe_id'', Integer 1), (''hop_id'', Integer 9), (''ord'', Integer 1)],
            [(''recipe_id'', Integer 1), (''hop_id'', Integer 4), (''ord'', Integer 2)]]"
    by (simp add: recipeHopsDefn_def junctionRow_def toSql_def)
  from update_resyncs_junction_rows[OF u2 c2 h3 n2 h5 h6 h7 h8, of "[VInt 9, VInt 4]"] r2
  have "filter (\<lambda>r. matches r (thisPrimaryKeyColumn recipeHopsDefn)
                        (property recipeWithTwoHops (propertyName recipeKeyDefn)))
               (tables (durable s2) (tableName_m2m recipeHopsDefn)) =
          junctionRows recipeHopsDefn (property recipeWithTwoHops (propertyName recipeKeyDefn))
            [VInt 9, VInt 4] 1" by blast
  then have after2: "filter (\<lambda>r. matches r ''recipe_id'' (VInt 1)) (tables (durable s2) ''hop_in_recipe'') =
          [[(''recipe_id'', Integer 1), (''hop_id'', Integer 9), (''ord'', Integer 1)],
           [(''recipe_id'', Integer 1), (''hop_id'', Integer 4), (''ord'', Integer 2)]]"
    unfolding pk2 v2 cols .
  from u1 c1 before after1 u2 c2 after2 show ?thesis by blast
qed

section \<open>Definitions with assumeMaxOneEntry\<close>

text \<open>
  Claim C5, at a failing input. The style of a recipe is a many-to-many definition with
  \<^verbatim>\<open>assumeMaxOneEntry\<close> and no order column, so its rows are read in the order of the style
  keys. First, a database that holds two styles for recipe 1, with the keys 42 and 43:
  \<^verbatim>\<open>loadAll\<close> reads the row of 42 first and the row of 43 last, and the loaded object's style
  is 43, the last one read (\<^verbatim>\<open>QMultiHash::values\<close> lists the values of a key from the most
  recently inserted, and \<^verbatim>\<open>loadAll\<close> takes \<^verbatim>\<open>first()\<close> of that list). Second, the scenario of
  the claim: an object whose style property holds the list of 42 and 43 is inserted, then a
  store with an empty cache loads the committed database. \<^verbatim>\<open>insert\<close> has wrapped the list
  into a one-item list and bound the list itself to the one row it wrote, which the database
  stores as the empty text; the loaded object's style is the empty string, not 42.
\<close>

theorem assumeMaxOneEntry_applies_last_row:
  "resultRows (junctionQuery recipeStyleDefn) recipeDatabase =
     [[(''recipe_id'', Integer 1), (''style_id'', Integer 42)],
      [(''recipe_id'', Integer 1), (''style_id'', Integer 43)]] \<and>
   loadedProperty reliableDriver recipeStore recipeDatabase 1 (CString 5 ''styleId'') =
     Some (VLongLong 43) \<and>
   insertThenReload reliableDriver recipeStore recipeWithTwoStyles initialState 1
     (CString 5 ''styleId'') = Some (VString [])"
  by (simp add: insertThenReload_def loadedProperty_def load_defs example_defs recipeDatabase_def)

end
